theory Spec2Isabelle
  imports Complex_Main "HOL-Library.Extended_Nat"
begin

section \<open>The simulated-microphone pipeline of RetellWebClient\<close>

text \<open>
  A shallow embedding of class \<open>RetellWebClient\<close>: the progressive \<open>sendAudioBuffer\<close>
  with its private \<open>sendAudioProgressively\<close>, \<open>stopCall\<close>, the data-channel handler
  registered by \<open>handleDataEvents\<close>, and the earlier whole-buffer \<open>sendAudioBuffer\<close>.

  The fields of the object are a record that every operation takes and returns. What an
  operation does to its collaborators (the room, the audio context, timers, the console,
  the event emitter) is a trace: the list of the calls it makes, in order, each paired with
  the fields of the client at the moment of the call. Which of the collaborators' calls
  throw or reject is an input of the model (record \<open>env\<close>). One operation is modelled as one
  uninterrupted run; the interleaving of two operations at an \<open>await\<close> is not modelled.
  Sample rates and sample counts are natural numbers and the track counter is unbounded.
\<close>

subsection \<open>Data\<close>

type_synonym track = nat

record publication =
  track :: track
  trackName :: string

datatype ctx_state = Running | Suspended | Closed

record client =
  connected :: bool
  room :: bool
  isAgentTalking :: bool
  analyzerComponent :: bool
  captureAudioFrame :: "nat option"
  audioContext :: "ctx_state option"
  audioTrackCounter :: nat
  currentAudioPublication :: "publication option"

record 'a AudioBuffer =
  sampleRate :: nat
  channelData :: "'a list"

datatype error = Error string | TypeError string | Thrown string

datatype outcome = Resolved | Rejected error

datatype json =
    JNull
  | JBool bool
  | JNumber int
  | JString string
  | JArray "json list"
  | JObject "(string \<times> json) list"

datatype 'a effect =
    Emit string "json option"
  | RoomDisconnect
  | AnalyzerCleanup
  | CancelAnimationFrame nat
  | UnpublishTrack track
  | ContextClose
  | ContextResume
  | CreateMediaStreamDestination
  | PublishTrack track string
  | SetTimeout real
  | SetSafetyTimeout real
  | ClearTimeout
  | CreateBufferSource
  | SourceConnect
  | SourceStart "'a list" real
  | SourceDisconnect
  | DestinationDisconnect
  | TrackStop track
  | ConsoleWarn string
  | ConsoleError string

type_synonym 'a trace = "('a effect \<times> client) list"

datatype playback = Ended | TimedOut

text \<open>
  \<open>SetTimeout d\<close> is a timer the run awaits before it goes on (\<open>await new Promise(resolve
  => setTimeout(resolve, d))\<close>); \<open>SetSafetyTimeout d\<close> is the timer the whole-buffer
  variant only registers. Delays are in milliseconds.
\<close>

record env =
  unpublish_throws :: bool
  resume_throws :: bool
  createDestination_throws :: bool
  audioTrack :: "track option"
  publish_throws :: bool
  chunk_throws :: "nat \<Rightarrow> bool"
  start_throws :: bool
  playback :: playback
  cleanup_throws :: bool
  emit_throws :: "string \<Rightarrow> bool"

subsection \<open>Chunk arithmetic of sendAudioProgressively\<close>

definition chunkDurationMs :: nat where
  "chunkDurationMs = 20"

text \<open>\<open>Math.floor((sampleRate * chunkDurationMs) / 1000)\<close>\<close>

definition chunkSizeInSamples :: "nat \<Rightarrow> nat" where
  "chunkSizeInSamples rate = nat \<lfloor>real (rate * chunkDurationMs) / 1000\<rfloor>"

text \<open>
  \<open>Math.ceil(totalSamples / chunkSizeInSamples)\<close>. A division by zero gives \<open>Infinity\<close> in
  JavaScript, and \<open>0 / 0\<close> gives \<open>NaN\<close>, for which the loop test \<open>i < numChunks\<close> is false
  from the start, as it is for a bound of zero.
\<close>

definition numChunks :: "nat \<Rightarrow> nat \<Rightarrow> enat" where
  "numChunks totalSamples chunkSize =
     (if chunkSize = 0 then (if totalSamples = 0 then 0 else \<infinity>)
      else enat (nat \<lceil>real totalSamples / real chunkSize\<rceil>))"

text \<open>
  \<open>((totalSamples % chunkSizeInSamples) || chunkSizeInSamples) / sampleRate * 1000\<close>.
  \<open>x % 0\<close> is \<open>NaN\<close>, which is falsy, so the right operand of \<open>||\<close> is taken then.
\<close>

definition finalChunkDuration :: "nat \<Rightarrow> nat \<Rightarrow> nat \<Rightarrow> real" where
  "finalChunkDuration totalSamples chunkSize rate =
     (let r = (if chunkSize = 0 then 0 else totalSamples mod chunkSize)
      in real (if r = 0 then chunkSize else r) / real rate * 1000)"

text \<open>
  The delay of the last timer, \<open>finalChunkDuration + 100\<close>. At a sample rate of zero the
  duration is \<open>0 / 0 = NaN\<close>, and \<open>setTimeout\<close> takes a \<open>NaN\<close> delay as zero.
\<close>

definition finalDelay :: "nat \<Rightarrow> nat \<Rightarrow> nat \<Rightarrow> real" where
  "finalDelay totalSamples chunkSize rate =
     (if rate = 0 then 0 else finalChunkDuration totalSamples chunkSize rate + 100)"

subsection \<open>sendAudioProgressively\<close>

text \<open>
  The \<open>for\<close> loop, with its counters \<open>i\<close> and \<open>offset\<close>. The bound may be \<open>Infinity\<close>, so
  the loop is a partial function: \<open>None\<close> is the run that never leaves the loop. The copy
  loop over \<open>j\<close> reads \<open>channelData[offset + j]\<close> for \<open>j < chunkSize\<close>; \<open>chunkSize\<close> is at
  most \<open>totalSamples - offset\<close>, so every read is in range, and \<open>offset\<close>, which starts at
  zero and grows by \<open>chunkSize\<close>, never passes \<open>totalSamples\<close>: the difference is never
  negative. \<open>playTime\<close> is recorded relative to \<open>startTime\<close>, in seconds.
  \<open>chunk_throws env i\<close> says that creating or scheduling the buffer of chunk \<open>i\<close> throws.
\<close>

partial_function (option) chunkLoop ::
  "env \<Rightarrow> 'a AudioBuffer \<Rightarrow> client \<Rightarrow> enat \<Rightarrow> nat \<Rightarrow> nat \<Rightarrow> 'a trace
     \<Rightarrow> (outcome \<times> 'a trace) option"
where
  "chunkLoop env audioBuffer s n i offset tr =
     (if enat i < n then
        (let chunkSize = min (chunkSizeInSamples (sampleRate audioBuffer))
                             (length (channelData audioBuffer) - offset);
             chunkChannelData = map (\<lambda>j. channelData audioBuffer ! (offset + j)) [0..<chunkSize];
             playTime = real (i * chunkDurationMs) / 1000
         in if chunk_throws env i then Some (Rejected (Thrown ''chunk''), tr)
            else chunkLoop env audioBuffer s n (i + 1) (offset + chunkSize)
                   (tr @ [(SourceStart chunkChannelData playTime, s),
                          (SetTimeout (real chunkDurationMs), s)]))
      else Some (Resolved, tr))"

definition sendAudioProgressively ::
  "env \<Rightarrow> 'a AudioBuffer \<Rightarrow> client \<Rightarrow> 'a trace \<Rightarrow> (outcome \<times> 'a trace) option"
where
  "sendAudioProgressively env audioBuffer s tr =
     (let rate = sampleRate audioBuffer;
          chunkSize = chunkSizeInSamples rate;
          totalSamples = length (channelData audioBuffer)
      in case chunkLoop env audioBuffer s (numChunks totalSamples chunkSize) 0 0 tr of
           None \<Rightarrow> None
         | Some (Rejected e, tr1) \<Rightarrow> Some (Rejected e, tr1)
         | Some (Resolved, tr1) \<Rightarrow>
             Some (Resolved, tr1 @ [(SetTimeout (finalDelay totalSamples chunkSize rate), s)]))"

text \<open>
  What \<open>k\<close> iterations of the loop that throw nowhere add to the trace, from counter \<open>i\<close>
  and offset \<open>offset\<close>. Lemma \<open>chunkLoop_shape\<close> below shows that every run of the loop
  that returns has added exactly this.
\<close>

fun loopTrace :: "'a AudioBuffer \<Rightarrow> client \<Rightarrow> nat \<Rightarrow> nat \<Rightarrow> nat \<Rightarrow> 'a trace" where
  "loopTrace audioBuffer s i offset 0 = []"
| "loopTrace audioBuffer s i offset (Suc k) =
     (let chunkSize = min (chunkSizeInSamples (sampleRate audioBuffer))
                          (length (channelData audioBuffer) - offset)
      in (SourceStart (map (\<lambda>j. channelData audioBuffer ! (offset + j)) [0..<chunkSize])
                      (real (i * chunkDurationMs) / 1000), s)
         # (SetTimeout (real chunkDurationMs), s)
         # loopTrace audioBuffer s (i + 1) (offset + chunkSize) k)"

text \<open>The sample arrays handed to \<open>source.start\<close>, and the timer delays, in trace order.\<close>

fun chunkOf :: "'a effect \<times> client \<Rightarrow> 'a list list" where
  "chunkOf (SourceStart c t, s) = [c]"
| "chunkOf _ = []"

definition scheduledChunks :: "'a trace \<Rightarrow> 'a list list" where
  "scheduledChunks tr = concat (map chunkOf tr)"

fun delayOf :: "'a effect \<times> client \<Rightarrow> real" where
  "delayOf (SetTimeout d, s) = d"
| "delayOf _ = 0"

definition waited :: "'a trace \<Rightarrow> real" where
  "waited tr = sum_list (map delayOf tr)"

subsection \<open>sendAudioBuffer, progressive variant\<close>

text \<open>
  The template literal \<open>`simulated_audio_${this.audioTrackCounter++}`\<close>: the counter in
  decimal digits after the prefix, as JavaScript prints every integer below \<open>10^21\<close>.
\<close>

fun toString :: "nat \<Rightarrow> string" where
  "toString n =
     (if n < 10 then [char_of (48 + n)] else toString (n div 10) @ [char_of (48 + n mod 10)])"

declare toString.simps [simp del]

definition simulatedTrackName :: "nat \<Rightarrow> string" where
  "simulatedTrackName n = ''simulated_audio_'' @ toString n"

definition settleDelayMs :: real where
  "settleDelayMs = 200"

text \<open>
  The first block of the \<open>try\<close>: a stored publication is unpublished and the reference
  set to \<open>undefined\<close>, whether or not the unpublish succeeded. Reading
  \<open>this.room.localParticipant\<close> with no room is a TypeError, which the inner \<open>catch\<close>
  receives like any failure of \<open>unpublishTrack\<close>.
\<close>

definition unpublishPrevious :: "env \<Rightarrow> client \<Rightarrow> 'a trace \<Rightarrow> client \<times> 'a trace" where
  "unpublishPrevious env s tr =
     (case currentAudioPublication s of
        None \<Rightarrow> (s, tr)
      | Some p \<Rightarrow>
          (s\<lparr>currentAudioPublication := None\<rparr>,
           if \<not> room s then tr @ [(ConsoleWarn ''Error unpublishing previous track'', s)]
           else if unpublish_throws env
             then tr @ [(UnpublishTrack (track p), s),
                        (ConsoleWarn ''Error unpublishing previous track'', s)]
             else tr @ [(UnpublishTrack (track p), s)]))"

text \<open>\<open>if (this.audioContext.state === "suspended") await this.audioContext.resume()\<close>\<close>

definition resumeContext :: "env \<Rightarrow> client \<Rightarrow> 'a trace \<Rightarrow> error + client \<times> 'a trace" where
  "resumeContext env s tr =
     (if audioContext s = Some Suspended then
        (if resume_throws env then Inl (Thrown ''resume'')
         else Inr (s\<lparr>audioContext := Some Running\<rparr>, tr @ [(ContextResume, s)]))
      else Inr (s, tr))"

text \<open>The body of the \<open>try\<close> block of \<open>sendAudioBuffer\<close>.\<close>

definition sendTry ::
  "env \<Rightarrow> 'a AudioBuffer \<Rightarrow> client \<Rightarrow> (outcome \<times> client \<times> 'a trace) option"
where
  "sendTry env audioBuffer s0 =
     (case unpublishPrevious env s0 [] of (s1, tr1) \<Rightarrow>
      case resumeContext env s1 tr1 of
        Inl e \<Rightarrow> Some (Rejected e, s1, tr1 @ [(ContextResume, s1)])
      | Inr (s2, tr2) \<Rightarrow>
          (let tr3 = tr2 @ [(CreateMediaStreamDestination, s2)]
           in if createDestination_throws env
              then Some (Rejected (Thrown ''createMediaStreamDestination''), s2, tr3)
              else case audioTrack env of
                  None \<Rightarrow> Some (Rejected (Error ''Failed to create audio track''), s2, tr3)
                | Some t \<Rightarrow>
                    (let name = simulatedTrackName (audioTrackCounter s2);
                         s3 = s2\<lparr>audioTrackCounter := audioTrackCounter s2 + 1\<rparr>
                     in if \<not> room s3 then Some (Rejected (TypeError ''localParticipant''), s3, tr3)
                        else
                          (let tr4 = tr3 @ [(PublishTrack t name, s3)]
                           in if publish_throws env
                              then Some (Rejected (Thrown ''publishTrack''), s3, tr4)
                              else
                                (let s4 = s3\<lparr>currentAudioPublication :=
                                               Some \<lparr>track = t, trackName = name\<rparr>\<rparr>;
                                     tr5 = tr4 @ [(SetTimeout settleDelayMs, s4)]
                                 in case sendAudioProgressively env audioBuffer s4 tr5 of
                                      None \<Rightarrow> None
                                    | Some (Rejected e, tr6) \<Rightarrow> Some (Rejected e, s4, tr6)
                                    | Some (Resolved, tr6) \<Rightarrow>
                                        Some (Resolved, s4,
                                              tr6 @ [(DestinationDisconnect, s4),
                                                     (TrackStop t, s4)]))))))"

text \<open>
  The two guards, then the \<open>try\<close> with its \<open>catch\<close>, which logs and throws the error again.
  The result is the settled promise, the fields afterwards and the trace; \<open>None\<close> is a
  promise that never settles.
\<close>

definition sendAudioBuffer ::
  "env \<Rightarrow> 'a AudioBuffer \<Rightarrow> client \<Rightarrow> (outcome \<times> client \<times> 'a trace) option"
where
  "sendAudioBuffer env audioBuffer s =
     (if \<not> connected s
      then Some (Rejected (Error ''Cannot send audio buffer: not connected to call''), s, [])
      else if audioContext s = None
      then Some (Rejected (Error (''AudioContext not initialized. Make sure to set '' @
                                  ''simulationMode: true in startCall()'')), s, [])
      else case sendTry env audioBuffer s of
          None \<Rightarrow> None
        | Some (Rejected e, s1, tr) \<Rightarrow>
            Some (Rejected e, s1, tr @ [(ConsoleError ''Error sending audio buffer'', s1)])
        | Some (Resolved, s1, tr) \<Rightarrow> Some (Resolved, s1, tr))"

text \<open>Several sends one after the other on the same client, with no \<open>stopCall\<close> between.\<close>

fun sendAll ::
  "(env \<times> 'a AudioBuffer) list \<Rightarrow> client \<Rightarrow> (client \<times> 'a trace) option"
where
  "sendAll [] s = Some (s, [])"
| "sendAll (c # cs) s =
     (case sendAudioBuffer (fst c) (snd c) s of
        None \<Rightarrow> None
      | Some (r, s1, tr1) \<Rightarrow>
          (case sendAll cs s1 of
             None \<Rightarrow> None
           | Some (s2, tr2) \<Rightarrow> Some (s2, tr1 @ tr2)))"

text \<open>Readings of a trace.\<close>

fun publishOf :: "'a effect \<times> client \<Rightarrow> (string \<times> client) list" where
  "publishOf (PublishTrack t name, s) = [(name, s)]"
| "publishOf _ = []"

definition publishCalls :: "'a trace \<Rightarrow> (string \<times> client) list" where
  "publishCalls tr = concat (map publishOf tr)"

definition publishedNames :: "'a trace \<Rightarrow> string list" where
  "publishedNames tr = map fst (publishCalls tr)"


fun unpublishOf :: "'a effect \<times> client \<Rightarrow> track list" where
  "unpublishOf (UnpublishTrack t, s) = [t]"
| "unpublishOf _ = []"

definition unpublishCalls :: "'a trace \<Rightarrow> track list" where
  "unpublishCalls tr = concat (map unpublishOf tr)"

fun isPublish :: "'a effect \<times> client \<Rightarrow> bool" where
  "isPublish (PublishTrack t name, s) = True"
| "isPublish _ = False"

definition beforePublish :: "'a trace \<Rightarrow> 'a trace" where
  "beforePublish tr = takeWhile (\<lambda>c. \<not> isPublish c) tr"

definition afterPublish :: "'a trace \<Rightarrow> 'a trace" where
  "afterPublish tr = tl (dropWhile (\<lambda>c. \<not> isPublish c) tr)"

fun isTeardown :: "'a effect \<times> client \<Rightarrow> bool" where
  "isTeardown (DestinationDisconnect, s) = True"
| "isTeardown (SourceDisconnect, s) = True"
| "isTeardown (TrackStop t, s) = True"
| "isTeardown _ = False"

definition teardownCalls :: "'a trace \<Rightarrow> 'a effect list" where
  "teardownCalls tr = map fst (filter isTeardown tr)"

definition effects :: "'a trace \<Rightarrow> 'a effect list" where
  "effects tr = map fst tr"

subsection \<open>sendAudioBuffer, whole-buffer variant\<close>

text \<open>
  The earlier \<open>sendAudioBuffer\<close>, which plays the whole clip as one source. Up to the
  publish it is the progressive variant with a buffer source created first. After
  \<open>source.start(0)\<close> it returns a promise that \<open>cleanup\<close> settles, called from
  \<open>source.onended\<close> or from the safety timer, whichever comes first (\<open>playback env\<close>).
  The promise is returned without \<open>await\<close>, so its rejection does not pass through the
  \<open>catch\<close> of the function.
\<close>

definition caught :: "error \<Rightarrow> client \<Rightarrow> 'a trace \<Rightarrow> (outcome \<times> client \<times> 'a trace) option" where
  "caught e s tr = Some (Rejected e, s, tr @ [(ConsoleError ''Error sending audio buffer'', s)])"

definition cleanup ::
  "env \<Rightarrow> bool \<Rightarrow> track \<Rightarrow> client \<Rightarrow> 'a trace \<Rightarrow> (outcome \<times> client \<times> 'a trace) option"
where
  "cleanup env isError t s tr =
     (let tr1 = tr @ [(ClearTimeout, s)]
      in if cleanup_throws env
         then Some (Rejected (Thrown ''disconnect''), s,
                    tr1 @ [(ConsoleError ''Error cleaning up audio buffer'', s)])
         else
           (let tr2 = tr1 @ [(SourceDisconnect, s), (DestinationDisconnect, s), (TrackStop t, s)]
            in if isError then Some (Rejected (Error ''Audio buffer playback timeout''), s, tr2)
               else Some (Resolved, s, tr2)))"

definition duration :: "'a AudioBuffer \<Rightarrow> real" where
  "duration audioBuffer = real (length (channelData audioBuffer)) / real (sampleRate audioBuffer)"

definition sendAudioBuffer_whole ::
  "env \<Rightarrow> 'a AudioBuffer \<Rightarrow> client \<Rightarrow> (outcome \<times> client \<times> 'a trace) option"
where
  "sendAudioBuffer_whole env audioBuffer s0 =
     (if \<not> connected s0
      then Some (Rejected (Error ''Cannot send audio buffer: not connected to call''), s0, [])
      else if audioContext s0 = None
      then Some (Rejected (Error (''AudioContext not initialized. Make sure to set '' @
                                  ''simulationMode: true in startCall()'')), s0, [])
      else
        (case unpublishPrevious env s0 [] of (s1, tr1) \<Rightarrow>
         case resumeContext env s1 tr1 of
           Inl e \<Rightarrow> caught e s1 (tr1 @ [(ContextResume, s1)])
         | Inr (s2, tr2) \<Rightarrow>
             (let tr3 = tr2 @ [(CreateBufferSource, s2), (CreateMediaStreamDestination, s2)]
              in if createDestination_throws env
                 then caught (Thrown ''createMediaStreamDestination'') s2 tr3
                 else
                   (let tr4 = tr3 @ [(SourceConnect, s2)]
                    in case audioTrack env of
                        None \<Rightarrow> caught (Error ''Failed to create audio track from buffer'') s2 tr4
                      | Some t \<Rightarrow>
                          (let name = simulatedTrackName (audioTrackCounter s2);
                               s3 = s2\<lparr>audioTrackCounter := audioTrackCounter s2 + 1\<rparr>
                           in if \<not> room s3 then caught (TypeError ''localParticipant'') s3 tr4
                              else
                                (let tr5 = tr4 @ [(PublishTrack t name, s3)]
                                 in if publish_throws env then caught (Thrown ''publishTrack'') s3 tr5
                                    else
                                      (let s4 = s3\<lparr>currentAudioPublication :=
                                                     Some \<lparr>track = t, trackName = name\<rparr>\<rparr>;
                                           tr6 = tr5 @ [(SetTimeout 400, s4),
                                                        (SourceStart (channelData audioBuffer) 0, s4)]
                                       in if start_throws env then caught (Thrown ''start'') s4 tr6
                                          else
                                            (let tr7 = tr6 @ [(SetSafetyTimeout
                                                       ((duration audioBuffer + 5) * 1000), s4)]
                                             in case playback env of
                                                  Ended \<Rightarrow> cleanup env False t s4 tr7
                                                | TimedOut \<Rightarrow>
                                                    cleanup env True t s4
                                                      (tr7 @ [(ConsoleWarn
                                                         ''Audio buffer playback timeout'', s4)])))))))))"

subsection \<open>stopCall\<close>

text \<open>
  \<open>stopCall\<close> has no \<open>try\<close> around \<open>this.emit("call_ended")\<close>, and the emitter runs the
  listeners inside \<open>emit\<close>: a listener that throws (\<open>emit_throws env\<close>) ends \<open>stopCall\<close> with
  that exception right after \<open>connected\<close> was set to false. The other calls return
  promises (\<open>disconnect\<close>, \<open>cleanup\<close>, \<open>close\<close>) or do not throw. The result is the exception
  that leaves \<open>stopCall\<close>, if any, the fields afterwards and the trace.

  \<open>delete this.room\<close> comes before the block that unpublishes the stored publication,
  and that block reads \<open>this.room.localParticipant\<close>: the model keeps the test on the
  room at that point, as \<open>unpublishPrevious\<close> does.
\<close>

definition stopCall :: "env \<Rightarrow> client \<Rightarrow> error option \<times> client \<times> 'a trace" where
  "stopCall env s =
     (if \<not> connected s then (None, s, [])
      else
        (let s1 = s\<lparr>connected := False\<rparr>;
             tr1 = [(Emit ''call_ended'' None, s1)]
         in if emit_throws env ''call_ended'' then (Some (Thrown ''call_ended''), s1, tr1)
            else
              (let tr2 = (if room s1 then tr1 @ [(RoomDisconnect, s1)] else tr1);
                   s2 = s1\<lparr>isAgentTalking := False, room := False\<rparr>;
                   tr3 = (if analyzerComponent s2 then tr2 @ [(AnalyzerCleanup, s2)] else tr2);
                   s3 = s2\<lparr>analyzerComponent := False\<rparr>;
                   frame = (case captureAudioFrame s3 of None \<Rightarrow> 0 | Some n \<Rightarrow> n);
                   tr4 = (if frame \<noteq> 0 then tr3 @ [(CancelAnimationFrame frame, s3)] else tr3);
                   s4 = (if frame \<noteq> 0 then s3\<lparr>captureAudioFrame := None\<rparr> else s3);
                   tr5 = (case currentAudioPublication s4 of
                            None \<Rightarrow> tr4
                          | Some p \<Rightarrow>
                              if \<not> room s4
                              then tr4 @ [(ConsoleWarn ''Error unpublishing track on stopCall'', s4)]
                              else if unpublish_throws env
                              then tr4 @ [(UnpublishTrack (track p), s4),
                                          (ConsoleWarn ''Error unpublishing track on stopCall'', s4)]
                              else tr4 @ [(UnpublishTrack (track p), s4)]);
                   s5 = s4\<lparr>currentAudioPublication := None\<rparr>;
                   closing = (case audioContext s5 of None \<Rightarrow> False | Some c \<Rightarrow> c \<noteq> Closed);
                   tr6 = (if closing then tr5 @ [(ContextClose, s5)] else tr5);
                   s6 = (if closing then s5\<lparr>audioContext := None\<rparr> else s5)
               in (None, s6\<lparr>audioTrackCounter := 0\<rparr>, tr6))))"

subsection \<open>The handler of handleDataEvents\<close>

text \<open>
  \<open>event.event_type\<close>: a TypeError on \<open>null\<close>, the member of an object (the last one
  when a key is repeated), \<open>undefined\<close> on any other value.
\<close>

definition event_type :: "json \<Rightarrow> error + json option" where
  "event_type event =
     (case event of
        JNull \<Rightarrow> Inl (TypeError ''event_type'')
      | JObject members \<Rightarrow> Inr (map_of (rev members) ''event_type'')
      | _ \<Rightarrow> Inr None)"

text \<open>\<open>this.emit(name, arg)\<close>; a listener that throws makes \<open>emit\<close> throw.\<close>

definition emit ::
  "(string \<Rightarrow> bool) \<Rightarrow> string \<Rightarrow> json option \<Rightarrow> client \<Rightarrow> error option \<times> client \<times> 'a trace"
where
  "emit listener_throws name arg s =
     (if listener_throws name then Some (Thrown name) else None, s, [(Emit name arg, s)])"

text \<open>
  The body of the \<open>try\<close> block. \<open>JSON_parse\<close> stands for \<open>JSON.parse\<close> after
  \<open>decoder.decode\<close>: \<open>None\<close> is its SyntaxError.
\<close>

definition dataTry ::
  "(string \<Rightarrow> json option) \<Rightarrow> (string \<Rightarrow> bool) \<Rightarrow> string \<Rightarrow> string option \<Rightarrow> client
     \<Rightarrow> error option \<times> client \<times> 'a trace"
where
  "dataTry JSON_parse listener_throws payload identity s =
     (if identity \<noteq> Some ''server'' then (None, s, [])
      else case JSON_parse payload of
          None \<Rightarrow> (Some (Error ''SyntaxError''), s, [])
        | Some event \<Rightarrow>
            (case event_type event of
               Inl e \<Rightarrow> (Some e, s, [])
             | Inr ty \<Rightarrow>
                 if ty = Some (JString ''update'')
                 then emit listener_throws ''update'' (Some event) s
                 else if ty = Some (JString ''metadata'')
                 then emit listener_throws ''metadata'' (Some event) s
                 else if ty = Some (JString ''agent_start_talking'')
                 then emit listener_throws ''agent_start_talking'' None (s\<lparr>isAgentTalking := True\<rparr>)
                 else if ty = Some (JString ''agent_stop_talking'')
                 then emit listener_throws ''agent_stop_talking'' None (s\<lparr>isAgentTalking := False\<rparr>)
                 else if ty = Some (JString ''node_transition'')
                 then emit listener_throws ''node_transition'' (Some event) s
                 else (None, s, [])))"

text \<open>
  The handler: the \<open>try\<close> with its \<open>catch\<close>, which logs. The first component of the result
  is the exception that leaves the handler, if any.
\<close>

definition onDataReceived ::
  "(string \<Rightarrow> json option) \<Rightarrow> (string \<Rightarrow> bool) \<Rightarrow> string \<Rightarrow> string option \<Rightarrow> client
     \<Rightarrow> error option \<times> client \<times> 'a trace"
where
  "onDataReceived JSON_parse listener_throws payload identity s =
     (case dataTry JSON_parse listener_throws payload identity s of
        (Some e, s1, tr) \<Rightarrow> (None, s1, tr @ [(ConsoleError ''Error decoding data received'', s1)])
      | (None, s1, tr) \<Rightarrow> (None, s1, tr))"

fun emitOf :: "'a effect \<times> client \<Rightarrow> string list" where
  "emitOf (Emit name arg, s) = [name]"
| "emitOf _ = []"

definition emitted :: "'a trace \<Rightarrow> string list" where
  "emitted tr = concat (map emitOf tr)"

definition knownEventTypes :: "string list" where
  "knownEventTypes =
     [''update'', ''metadata'', ''agent_start_talking'', ''agent_stop_talking'', ''node_transition'']"

subsection \<open>Concrete inputs\<close>

text \<open>
  An environment in which no call throws and playback ends by itself, and a client
  as \<open>startCall\<close> leaves it in simulation mode: connected, with a room and a running audio
  context, no publication stored, the counter at zero.
\<close>

definition quiet :: env where
  "quiet = \<lparr>unpublish_throws = False, resume_throws = False, createDestination_throws = False,
             audioTrack = Some 1, publish_throws = False, chunk_throws = (\<lambda>i. False),
             start_throws = False, playback = Ended, cleanup_throws = False,
             emit_throws = (\<lambda>name. False)\<rparr>"

definition simulating :: client where
  "simulating = \<lparr>connected = True, room = True, isAgentTalking = False,
                  analyzerComponent = False, captureAudioFrame = None,
                  audioContext = Some Running, audioTrackCounter = 0,
                  currentAudioPublication = None\<rparr>"

text \<open>A clip of \<open>n\<close> samples at a given rate; sample \<open>i\<close> has the value \<open>i\<close>.\<close>

definition clip :: "nat \<Rightarrow> nat \<Rightarrow> nat AudioBuffer" where
  "clip rate n = \<lparr>sampleRate = rate, channelData = [0..<n]\<rparr>"

text \<open>The client after one send: a publication is stored and the counter is at one.\<close>

definition published :: client where
  "published = simulating\<lparr>audioTrackCounter := 1,
       currentAudioPublication := Some \<lparr>track = 7, trackName = ''simulated_audio_0''\<rparr>\<rparr>"

text \<open>The durations, in milliseconds, of the chunks a trace has scheduled, added up.\<close>

definition chunkDurations :: "'a AudioBuffer \<Rightarrow> 'a trace \<Rightarrow> real" where
  "chunkDurations audioBuffer tr =
     sum_list (map (\<lambda>c. real (length c) / real (sampleRate audioBuffer) * 1000)
                   (scheduledChunks tr))"

section \<open>Lemmas\<close>

subsection \<open>Chunk arithmetic\<close>

lemma chunkSizeInSamples_div: "chunkSizeInSamples rate = rate div 50"
proof -
  have "\<lfloor>real (rate * 20) / 1000\<rfloor> = int ((rate * 20) div 1000)"
    using floor_divide_of_nat_eq [of "rate * 20" 1000, where ?'a = real] by simp
  then show ?thesis by (simp add: chunkSizeInSamples_def chunkDurationMs_def)
qed

lemma ceiling_div_nat:
  assumes "0 < c"
  shows "nat \<lceil>real l / real c\<rceil> = (l + c - 1) div c"
proof -
  define q where "q = (l + c - 1) div c"
  have 1: "real l / real c \<le> real q"
  proof -
    have "l \<le> q * c"
    proof -
      have "(l + c - 1) mod c < c" using assms by simp
      moreover have "q * c + (l + c - 1) mod c = l + c - 1" by (simp add: q_def)
      ultimately show ?thesis using assms by linarith
    qed
    then have "real l \<le> real q * real c" by (metis of_nat_le_iff of_nat_mult)
    then show ?thesis using assms by (simp add: field_simps)
  qed
  have 2: "real q - 1 < real l / real c"
  proof -
    have "q * c \<le> l + c - 1" by (simp add: q_def)
    then have "q * c < l + c" using assms by linarith
    then have "real q * real c < real l + real c" by (metis of_nat_less_iff of_nat_mult of_nat_add)
    then show ?thesis using assms by (simp add: field_simps)
  qed
  have "\<lceil>real l / real c\<rceil> = int q"
    using 1 2 by (intro ceiling_unique) auto
  then show ?thesis by (simp add: q_def)
qed

lemma numChunks_pos: "0 < c \<Longrightarrow> numChunks l c = enat ((l + c - 1) div c)"
  by (simp add: numChunks_def ceiling_div_nat)

lemma chunk_count_split:
  fixes l c :: nat
  assumes "0 < c"
  shows "(l + c - 1) div c = l div c + (if l mod c = 0 then 0 else 1)"
proof -
  define q r where "q = l div c" and "r = l mod c"
  have l: "l = q * c + r" by (simp only: q_def r_def div_mult_mod_eq)
  have r: "r < c" using assms by (simp add: r_def)
  show ?thesis
  proof (cases "r = 0")
    case True
    have "l + c - 1 = q * c + (c - 1)" using assms l True by simp
    moreover have "(q * c + (c - 1)) div c = q"
    proof -
      have "(q * c + (c - 1)) div c = q + (c - 1) div c"
        by (rule div_mult_self3) (use assms in simp)
      moreover have "(c - 1) div c = 0" using assms by simp
      ultimately show ?thesis by simp
    qed
    ultimately show ?thesis using True by (simp add: q_def r_def)
  next
    case False
    have "l + c - 1 = (q + 1) * c + (r - 1)" using False l by (simp add: algebra_simps)
    moreover have "((q + 1) * c + (r - 1)) div c = q + 1"
    proof -
      have "((q + 1) * c + (r - 1)) div c = (q + 1) + (r - 1) div c"
        by (rule div_mult_self3) (use assms in simp)
      moreover have "(r - 1) div c = 0" using r by simp
      ultimately show ?thesis by simp
    qed
    ultimately show ?thesis using False by (simp add: q_def r_def)
  qed
qed

lemma chunk_lengths_closed:
  assumes "0 < c"
  shows "map (\<lambda>j. min c (l - j * c)) [0..<(l + c - 1) div c]
           = replicate (l div c) c @ (if l mod c = 0 then [] else [l mod c])"
  unfolding chunk_count_split [OF assms]
proof (rule nth_equalityI)
  show "length (map (\<lambda>j. min c (l - j * c)) [0..<l div c + (if l mod c = 0 then 0 else 1)])
          = length (replicate (l div c) c @ (if l mod c = 0 then [] else [l mod c]))"
    by simp
next
  fix j
  assume "j < length (map (\<lambda>j. min c (l - j * c)) [0..<l div c + (if l mod c = 0 then 0 else 1)])"
  then have j: "j < l div c + (if l mod c = 0 then 0 else 1)"
    by simp
  show "map (\<lambda>j. min c (l - j * c)) [0..<l div c + (if l mod c = 0 then 0 else 1)] ! j
          = (replicate (l div c) c @ (if l mod c = 0 then [] else [l mod c])) ! j"
  proof (cases "j < l div c")
    case True
    then have "Suc j * c \<le> l div c * c" by (simp add: Suc_leI del: mult_Suc)
    also have "\<dots> \<le> l" by simp
    finally have "c \<le> l - j * c" by simp
    then show ?thesis using True j by (simp add: nth_append)
  next
    case False
    with j have jeq: "j = l div c" and nz: "l mod c \<noteq> 0" by (auto split: if_splits)
    have "l - l div c * c = l mod c" by (simp add: minus_div_mult_eq_mod)
    moreover have "l mod c < c" using assms by simp
    ultimately have "min c (l - j * c) = l mod c" using jeq by simp
    then show ?thesis using jeq nz by (simp add: nth_append)
  qed
qed

subsection \<open>Readings of a trace\<close>

lemma scheduledChunks_simps [simp]:
  "scheduledChunks [] = []"
  "scheduledChunks (x # tr) = chunkOf x @ scheduledChunks tr"
  "scheduledChunks (tr @ tr') = scheduledChunks tr @ scheduledChunks tr'"
  by (simp_all add: scheduledChunks_def)

lemma waited_simps [simp]:
  "waited [] = 0"
  "waited (x # tr) = delayOf x + waited tr"
  "waited (tr @ tr') = waited tr + waited tr'"
  by (simp_all add: waited_def)

lemma publishCalls_simps [simp]:
  "publishCalls [] = []"
  "publishCalls (x # tr) = publishOf x @ publishCalls tr"
  "publishCalls (tr @ tr') = publishCalls tr @ publishCalls tr'"
  by (simp_all add: publishCalls_def)

lemma unpublishCalls_simps [simp]:
  "unpublishCalls [] = []"
  "unpublishCalls (x # tr) = unpublishOf x @ unpublishCalls tr"
  "unpublishCalls (tr @ tr') = unpublishCalls tr @ unpublishCalls tr'"
  by (simp_all add: unpublishCalls_def)

lemma teardownCalls_simps [simp]:
  "teardownCalls [] = []"
  "teardownCalls (x # tr) = (if isTeardown x then [fst x] else []) @ teardownCalls tr"
  "teardownCalls (tr @ tr') = teardownCalls tr @ teardownCalls tr'"
  by (simp_all add: teardownCalls_def)

lemma emitted_simps [simp]:
  "emitted [] = []"
  "emitted (x # tr) = emitOf x @ emitted tr"
  "emitted (tr @ tr') = emitted tr @ emitted tr'"
  by (simp_all add: emitted_def)


subsection \<open>The chunk loop\<close>

lemma chunkLoop_runs:
  assumes "\<forall>j. i \<le> j \<and> j < i + k \<longrightarrow> \<not> chunk_throws env j"
  shows "chunkLoop env b s (enat (i + k)) i off tr = Some (Resolved, tr @ loopTrace b s i off k)"
  using assms
proof (induction k arbitrary: i off tr)
  case 0
  show ?case by (subst chunkLoop.simps) simp
next
  case (Suc k)
  have nothrow: "\<not> chunk_throws env i" using Suc.prems by simp
  have rest: "\<forall>j. i + 1 \<le> j \<and> j < (i + 1) + k \<longrightarrow> \<not> chunk_throws env j"
    using Suc.prems by simp
  have eq: "i + Suc k = (i + 1) + k" by simp
  show ?case
    apply (subst chunkLoop.simps)
    apply (simp only: eq)
    using nothrow Suc.IH [OF rest] by (simp add: Let_def)
qed

lemma chunkLoop_shape_aux:
  assumes "chunkLoop env b s n i off tr = Some y"
  shows "\<exists>k. snd y = tr @ loopTrace b s i off k \<and>
         (case fst y of Resolved \<Rightarrow> n \<le> enat (i + k) \<and> (k = 0 \<or> enat (i + k) \<le> n)
                  | Rejected e \<Rightarrow> chunk_throws env (i + k) \<and> enat (i + k) < n)"
proof (rule chunkLoop.raw_induct [where P = "\<lambda>env b s n i off tr y.
     \<exists>k. snd y = tr @ loopTrace b s i off k \<and>
         (case fst y of Resolved \<Rightarrow> n \<le> enat (i + k) \<and> (k = 0 \<or> enat (i + k) \<le> n)
                  | Rejected e \<Rightarrow> chunk_throws env (i + k) \<and> enat (i + k) < n)", OF _ assms],
    goal_cases)
  case (1 loop env b s n i off tr y)
  show ?case
  proof (cases "enat i < n")
    case False
    with 1(2) have "y = (Resolved, tr)" by simp
    then show ?thesis using False by (intro exI [of _ 0]) simp
  next
    case True
    note lt = this
    show ?thesis
    proof (cases "chunk_throws env i")
      case True
      with 1(2) lt have "y = (Rejected (Thrown ''chunk''), tr)" by (simp add: Let_def)
      then show ?thesis using True lt by (intro exI [of _ 0]) simp
    next
      case False
      let ?m = "min (chunkSizeInSamples (sampleRate b)) (length (channelData b) - off)"
      let ?tr = "tr @ [(SourceStart (map (\<lambda>j. channelData b ! (off + j)) [0..<?m])
                     (real (i * chunkDurationMs) / 1000), s), (SetTimeout (real chunkDurationMs), s)]"
      from 1(2) lt False have "loop env b s n (i + 1) (off + ?m) ?tr = Some y"
        by (simp add: Let_def)
      from 1(1) [OF this] obtain k where
        kc: "snd y = ?tr @ loopTrace b s (i + 1) (off + ?m) k \<and>
          (case fst y of Resolved \<Rightarrow> n \<le> enat (i + 1 + k) \<and> (k = 0 \<or> enat (i + 1 + k) \<le> n)
                  | Rejected e \<Rightarrow> chunk_throws env (i + 1 + k) \<and> enat (i + 1 + k) < n)" ..
      from kc have k: "snd y = ?tr @ loopTrace b s (i + 1) (off + ?m) k" ..
      from kc have c: "(case fst y of Resolved \<Rightarrow> n \<le> enat (i + 1 + k) \<and> (k = 0 \<or> enat (i + 1 + k) \<le> n)
                  | Rejected e \<Rightarrow> chunk_throws env (i + 1 + k) \<and> enat (i + 1 + k) < n)" ..
      have "snd y = tr @ loopTrace b s i off (Suc k)" using k by (simp add: Let_def)
      moreover have "(case fst y of Resolved \<Rightarrow> n \<le> enat (i + Suc k) \<and> (Suc k = 0 \<or> enat (i + Suc k) \<le> n)
                  | Rejected e \<Rightarrow> chunk_throws env (i + Suc k) \<and> enat (i + Suc k) < n)"
      proof (cases "fst y")
        case Resolved
        with c have a: "n \<le> enat (i + 1 + k)" and b: "k = 0 \<or> enat (i + 1 + k) \<le> n" by simp_all
        have "enat (i + 1) \<le> n" using lt by (cases n) simp_all
        then have "enat (i + 1 + k) \<le> n" using b by (cases "k = 0") simp_all
        then show ?thesis using Resolved a by simp
      next
        case (Rejected e)
        with c show ?thesis by simp
      qed
      ultimately show ?thesis by (intro exI [of _ "Suc k"] conjI)
    qed
  qed
qed

lemma chunkLoop_shape:
  assumes "chunkLoop env b s n 0 off tr = Some (r, tr')"
  shows "\<exists>k. tr' = tr @ loopTrace b s 0 off k \<and> (r = Resolved \<longrightarrow> n = enat k)"
proof -
  from chunkLoop_shape_aux [OF assms] obtain k where
    kc: "snd (r, tr') = tr @ loopTrace b s 0 off k \<and>
      (case fst (r, tr') of Resolved \<Rightarrow> n \<le> enat (0 + k) \<and> (k = 0 \<or> enat (0 + k) \<le> n)
                  | Rejected e \<Rightarrow> chunk_throws env (0 + k) \<and> enat (0 + k) < n)" ..
  from kc have k: "tr' = tr @ loopTrace b s 0 off k" by simp
  from kc have c: "(case r of Resolved \<Rightarrow> n \<le> enat k \<and> (k = 0 \<or> enat k \<le> n)
                  | Rejected e \<Rightarrow> chunk_throws env k \<and> enat k < n)" by (cases r) simp_all
  have "r = Resolved \<longrightarrow> n = enat k"
  proof
    assume "r = Resolved"
    with c have a: "n \<le> enat k" and b: "k = 0 \<or> enat k \<le> n" by simp_all
    show "n = enat k"
    proof (cases "k = 0")
      case True
      with a show ?thesis by (simp add: zero_enat_def [symmetric])
    next
      case False
      with a b show ?thesis by simp
    qed
  qed
  with k show ?thesis by (intro exI [of _ k] conjI)
qed

lemma loopTrace_waited: "waited (loopTrace b s i off k) = real chunkDurationMs * real k"
  by (induction k arbitrary: i off) (simp_all add: Let_def algebra_simps)

lemma loopTrace_publishCalls: "publishCalls (loopTrace b s i off k) = []"
  by (induction k arbitrary: i off) (simp_all add: Let_def)

lemma loopTrace_unpublishCalls: "unpublishCalls (loopTrace b s i off k) = []"
  by (induction k arbitrary: i off) (simp_all add: Let_def)

lemma loopTrace_teardownCalls: "teardownCalls (loopTrace b s i off k) = []"
  by (induction k arbitrary: i off) (simp_all add: Let_def)

lemma loopTrace_no_publish: "filter isPublish (loopTrace b s i off k) = []"
  by (induction k arbitrary: i off) (simp_all add: Let_def)

lemma slice_take_drop:
  assumes "m \<le> length xs - off"
  shows "map (\<lambda>j. xs ! (off + j)) [0..<m] = take m (drop off xs)"
proof (rule nth_equalityI)
  show "length (map (\<lambda>j. xs ! (off + j)) [0..<m]) = length (take m (drop off xs))"
    using assms by simp
next
  fix j
  assume "j < length (map (\<lambda>j. xs ! (off + j)) [0..<m])"
  then have j: "j < m" by simp
  then have "off \<le> length xs" using assms by simp
  then show "map (\<lambda>j. xs ! (off + j)) [0..<m] ! j = take m (drop off xs) ! j"
    using j by simp
qed

lemma loopTrace_concat:
  "concat (scheduledChunks (loopTrace b s i off k))
     = take (k * chunkSizeInSamples (sampleRate b)) (drop off (channelData b))"
proof (induction k arbitrary: i off)
  case 0
  show ?case by simp
next
  case (Suc k)
  let ?cs = "chunkSizeInSamples (sampleRate b)"
  let ?xs = "channelData b"
  let ?m = "min ?cs (length ?xs - off)"
  have first: "map (\<lambda>j. ?xs ! (off + j)) [0..<?m] = take ?m (drop off ?xs)"
    by (rule slice_take_drop) simp
  have "take ?m (drop off ?xs) @ take (k * ?cs) (drop (off + ?m) ?xs)
          = take (Suc k * ?cs) (drop off ?xs)"
  proof (cases "?cs \<le> length ?xs - off")
    case True
    then have m: "?m = ?cs" by simp
    have "take (?cs + k * ?cs) (drop off ?xs)
            = take ?cs (drop off ?xs) @ take (k * ?cs) (drop ?cs (drop off ?xs))"
      by (rule take_add)
    then show ?thesis by (simp add: m add.commute)
  next
    case False
    then have m: "?m = length ?xs - off" by simp
    have "length (drop off ?xs) \<le> Suc k * ?cs" using False by simp
    then show ?thesis by (simp add: m)
  qed
  then show ?case using Suc.IH [of "i + 1" "off + ?m"] first by (simp add: Let_def)
qed

lemma loopTrace_lengths:
  "map length (scheduledChunks (loopTrace b s i off k))
     = map (\<lambda>j. min (chunkSizeInSamples (sampleRate b))
                     (length (channelData b) - off - j * chunkSizeInSamples (sampleRate b)))
           [0..<k]"
proof (induction k arbitrary: i off)
  case 0
  show ?case by simp
next
  case (Suc k)
  let ?cs = "chunkSizeInSamples (sampleRate b)"
  let ?L = "length (channelData b)"
  let ?m = "min ?cs (?L - off)"
  have shift: "map (\<lambda>j. min ?cs (?L - (off + ?m) - j * ?cs)) [0..<k]
                = map (\<lambda>j. min ?cs (?L - off - Suc j * ?cs)) [0..<k]"
  proof (rule map_cong [OF refl])
    fix j
    show "min ?cs (?L - (off + ?m) - j * ?cs) = min ?cs (?L - off - Suc j * ?cs)"
    proof (cases "?cs \<le> ?L - off")
      case True
      then have "?m = ?cs" by simp
      then show ?thesis by (simp add: add.assoc)
    next
      case False
      then have "?L - (off + ?m) - j * ?cs = 0" and "?L - off - Suc j * ?cs = 0" by simp_all
      then show ?thesis by simp
    qed
  qed
  have "[0..<Suc k] = 0 # map Suc [0..<k]"
    by (simp add: upt_conv_Cons map_Suc_upt del: upt_Suc)
  then have "map (\<lambda>j. min ?cs (?L - off - j * ?cs)) [0..<Suc k]
          = ?m # map (\<lambda>j. min ?cs (?L - off - Suc j * ?cs)) [0..<k]"
    by (simp add: comp_def del: upt_Suc)
  then show ?case using Suc.IH [of "i + 1" "off + ?m"] shift
    by (simp add: Let_def del: upt_Suc)
qed

lemma chunks_cover:
  fixes l c :: nat
  assumes "0 < c"
  shows "l \<le> (l + c - 1) div c * c"
proof -
  have "(l + c - 1) mod c < c" using assms by simp
  moreover have "(l + c - 1) div c * c + (l + c - 1) mod c = l + c - 1" by simp
  ultimately show ?thesis using assms by linarith
qed

lemma sendAudioProgressively_shape:
  assumes "sendAudioProgressively env b s tr = Some (r, tr')"
  shows "\<exists>k. tr' = tr @ loopTrace b s 0 0 k
            @ (if r = Resolved
               then [(SetTimeout (finalDelay (length (channelData b))
                       (chunkSizeInSamples (sampleRate b)) (sampleRate b)), s)]
               else [])
          \<and> (r = Resolved \<longrightarrow>
               numChunks (length (channelData b)) (chunkSizeInSamples (sampleRate b)) = enat k)"
proof -
  let ?n = "numChunks (length (channelData b)) (chunkSizeInSamples (sampleRate b))"
  obtain r1 tr1 where loop: "chunkLoop env b s ?n 0 0 tr = Some (r1, tr1)"
    using assms by (cases "chunkLoop env b s ?n 0 0 tr") (auto simp: sendAudioProgressively_def Let_def)
  from chunkLoop_shape [OF loop] obtain k where
    k: "tr1 = tr @ loopTrace b s 0 0 k \<and> (r1 = Resolved \<longrightarrow> ?n = enat k)" ..
  show ?thesis
  proof (cases r1)
    case Resolved
    with assms loop have "r = Resolved"
      and "tr' = tr1 @ [(SetTimeout (finalDelay (length (channelData b))
                       (chunkSizeInSamples (sampleRate b)) (sampleRate b)), s)]"
      by (simp_all add: sendAudioProgressively_def Let_def)
    with k Resolved show ?thesis by (intro exI [of _ k]) simp
  next
    case (Rejected e)
    with assms loop have "r = Rejected e" and "tr' = tr1"
      by (simp_all add: sendAudioProgressively_def Let_def)
    with k show ?thesis by (intro exI [of _ k]) simp
  qed
qed

lemma sendAudioProgressively_runs:
  assumes "0 < chunkSizeInSamples (sampleRate b)" and "\<forall>i. \<not> chunk_throws env i"
  shows "sendAudioProgressively env b s tr =
           Some (Resolved, tr @ loopTrace b s 0 0
                   ((length (channelData b) + chunkSizeInSamples (sampleRate b) - 1)
                      div chunkSizeInSamples (sampleRate b))
                 @ [(SetTimeout (finalDelay (length (channelData b))
                       (chunkSizeInSamples (sampleRate b)) (sampleRate b)), s)])"
proof -
  let ?k = "(length (channelData b) + chunkSizeInSamples (sampleRate b) - 1)
                      div chunkSizeInSamples (sampleRate b)"
  have "chunkLoop env b s (enat (0 + ?k)) 0 0 tr = Some (Resolved, tr @ loopTrace b s 0 0 ?k)"
    by (rule chunkLoop_runs) (use assms in simp)
  then show ?thesis
    using assms(1) by (simp add: sendAudioProgressively_def Let_def numChunks_pos)
qed


lemma chunkSize_arith: "chunkSizeInSamples rate = rate * 20 div 1000"
  by (simp add: chunkSizeInSamples_div)

lemma loopTrace_round_trip:
  assumes "numChunks (length (channelData b)) (chunkSizeInSamples (sampleRate b)) = enat k"
  shows "concat (scheduledChunks (loopTrace b s i 0 k)) = channelData b"
proof -
  let ?c = "chunkSizeInSamples (sampleRate b)"
  let ?l = "length (channelData b)"
  have cover: "?l \<le> k * ?c"
  proof (cases "?c = 0")
    case True
    with assms show ?thesis by (simp add: numChunks_def split: if_splits)
  next
    case False
    then have "k = (?l + ?c - 1) div ?c" using assms by (simp add: numChunks_pos)
    then show ?thesis using chunks_cover [of ?c ?l] False by simp
  qed
  show ?thesis using loopTrace_concat [of b s i 0 k] cover by simp
qed

lemma durations_sum:
  "sum_list (map (\<lambda>c. real (length c) / r * 1000) cs) = real (length (concat cs)) / r * 1000"
  by (induction cs) (simp_all add: add_divide_distrib distrib_right)


lemma chunk_sizes_model:
  fixes b :: "'a AudioBuffer"
  assumes "0 < length (channelData b)"
    and "0 < chunkSizeInSamples (sampleRate b)"
    and "\<forall>i. \<not> chunk_throws env i"
  shows "\<exists>new. sendAudioProgressively env b s tr = Some (Resolved, tr @ new)
    \<and> length (scheduledChunks new)
        = nat \<lceil>real (length (channelData b)) / real (chunkSizeInSamples (sampleRate b))\<rceil>
    \<and> (\<forall>j. j + 1 < length (scheduledChunks new) \<longrightarrow>
          length (scheduledChunks new ! j) = chunkSizeInSamples (sampleRate b))
    \<and> length (last (scheduledChunks new))
        = (if length (channelData b) mod chunkSizeInSamples (sampleRate b) = 0
           then chunkSizeInSamples (sampleRate b)
           else length (channelData b) mod chunkSizeInSamples (sampleRate b))
    \<and> (sampleRate b = 24000 \<and> length (channelData b) = 8400 \<longrightarrow>
          map length (scheduledChunks new) = replicate 17 480 @ [240])
    \<and> (sampleRate b = 24000 \<and> length (channelData b) = 24000 \<longrightarrow>
          map length (scheduledChunks new) = replicate 50 480)"
proof -
  let ?c = "chunkSizeInSamples (sampleRate b)"
  let ?l = "length (channelData b)"
  let ?k = "(?l + ?c - 1) div ?c"
  let ?new = "loopTrace b s 0 0 ?k @ [(SetTimeout (finalDelay ?l ?c (sampleRate b)), s)]"
  let ?cs = "scheduledChunks ?new"
  have run: "sendAudioProgressively env b s tr = Some (Resolved, tr @ ?new)"
    using sendAudioProgressively_runs [OF assms(2,3)] by simp
  have lens: "map length ?cs = replicate (?l div ?c) ?c @ (if ?l mod ?c = 0 then [] else [?l mod ?c])"
    using loopTrace_lengths [of b s 0 0 ?k] chunk_lengths_closed [OF assms(2), of ?l] by simp
  have q: "0 < ?l mod ?c \<or> 0 < ?l div ?c"
    using assms(1,2) by (metis div_greater_zero_iff mod_less not_gr_zero not_le)
  have count: "length ?cs = nat \<lceil>real ?l / real ?c\<rceil>"
  proof -
    have "length ?cs = length (map length ?cs)" by simp
    also have "\<dots> = ?l div ?c + (if ?l mod ?c = 0 then 0 else 1)" unfolding lens by simp
    also have "\<dots> = ?k" by (rule chunk_count_split [OF assms(2), symmetric])
    also have "\<dots> = nat \<lceil>real ?l / real ?c\<rceil>" by (rule ceiling_div_nat [OF assms(2), symmetric])
    finally show ?thesis .
  qed
  have full: "\<forall>j. j + 1 < length ?cs \<longrightarrow> length (?cs ! j) = ?c"
  proof (intro allI impI)
    fix j
    assume j: "j + 1 < length ?cs"
    have "length ?cs = ?l div ?c + (if ?l mod ?c = 0 then 0 else 1)"
      using arg_cong [OF lens, of length] by simp
    with j have jq: "j < ?l div ?c" by (simp split: if_splits)
    have "length (?cs ! j) = map length ?cs ! j" using j by simp
    also have "\<dots> = ?c" unfolding lens using jq by (simp add: nth_append)
    finally show "length (?cs ! j) = ?c" .
  qed
  have nonempty: "?cs \<noteq> []"
    using arg_cong [OF lens, of length] q by (auto split: if_splits)
  have final: "length (last ?cs) = (if ?l mod ?c = 0 then ?c else ?l mod ?c)"
  proof -
    have "length (last ?cs) = last (map length ?cs)" using nonempty by (simp add: last_map)
    also have "\<dots> = (if ?l mod ?c = 0 then ?c else ?l mod ?c)"
      unfolding lens using q by auto
    finally show ?thesis .
  qed
  have s1: "sampleRate b = 24000 \<and> ?l = 8400 \<longrightarrow> map length ?cs = replicate 17 480 @ [240]"
  proof
    assume "sampleRate b = 24000 \<and> ?l = 8400"
    then show "map length ?cs = replicate 17 480 @ [240]"
      using lens by (simp add: chunkSizeInSamples_div)
  qed
  have s2: "sampleRate b = 24000 \<and> ?l = 24000 \<longrightarrow> map length ?cs = replicate 50 480"
  proof
    assume "sampleRate b = 24000 \<and> ?l = 24000"
    then show "map length ?cs = replicate 50 480"
      using lens by (simp add: chunkSizeInSamples_div)
  qed
  from run count full final s1 s2 show ?thesis by (intro exI [of _ ?new] conjI)
qed

lemma resolved_round_trip:
  assumes "sendAudioProgressively env b s tr = Some (Resolved, tr')"
  shows "\<exists>new. tr' = tr @ new \<and> concat (scheduledChunks new) = channelData b"
proof -
  let ?c = "chunkSizeInSamples (sampleRate b)"
  let ?l = "length (channelData b)"
  from sendAudioProgressively_shape [OF assms] obtain k where
    k: "tr' = tr @ loopTrace b s 0 0 k @ (if Resolved = Resolved
               then [(SetTimeout (finalDelay ?l ?c (sampleRate b)), s)] else [])
        \<and> (Resolved = Resolved \<longrightarrow> numChunks ?l ?c = enat k)" ..
  then have n: "numChunks ?l ?c = enat k" by simp
  have cover: "?l \<le> k * ?c"
  proof (cases "?c = 0")
    case True
    with n show ?thesis by (simp add: numChunks_def split: if_splits)
  next
    case False
    then have "k = (?l + ?c - 1) div ?c" using n by (simp add: numChunks_pos)
    then show ?thesis using chunks_cover [of ?c ?l] False by simp
  qed
  have "concat (scheduledChunks (loopTrace b s 0 0 k)) = channelData b"
    using loopTrace_concat [of b s 0 0 k] cover by simp
  then have "concat (scheduledChunks (loopTrace b s 0 0 k
               @ [(SetTimeout (finalDelay ?l ?c (sampleRate b)), s)])) = channelData b"
    by simp
  with k show ?thesis by simp
qed

subsection \<open>The runs of sendAudioBuffer\<close>

lemma unpublishPrevious_facts:
  assumes "unpublishPrevious env s [] = (s1, tr1)"
  shows "s1 = s\<lparr>currentAudioPublication := None\<rparr>"
    and "filter isPublish tr1 = []"
    and "unpublishCalls tr1 =
          (case currentAudioPublication s of None \<Rightarrow> [] | Some p \<Rightarrow> if room s then [track p] else [])"
  using assms by (auto simp: unpublishPrevious_def split: option.splits if_splits)

lemma resumeContext_facts:
  assumes "resumeContext env s1 tr1 = Inr (s2, tr2)"
  shows "audioTrackCounter s2 = audioTrackCounter s1"
    and "currentAudioPublication s2 = currentAudioPublication s1"
    and "room s2 = room s1"
    and "connected s2 = connected s1"
    and "tr2 = tr1 \<or> tr2 = tr1 @ [(ContextResume, s1)]"
  using assms by (auto simp: resumeContext_def split: if_splits)


lemma sendTry_cases:
  fixes b :: "'a AudioBuffer"
  assumes "sendTry env b s = Some (r, s', tr)"
  shows "(r \<noteq> Resolved \<and> filter isPublish tr = []
            \<and> audioTrackCounter s \<le> audioTrackCounter s'
            \<and> audioTrackCounter s' \<le> audioTrackCounter s + 1)
       \<or> (\<exists>pre post t s3.
             tr = pre @ (PublishTrack t (simulatedTrackName (audioTrackCounter s)), s3) # post
           \<and> filter isPublish pre = [] \<and> filter isPublish post = []
           \<and> currentAudioPublication s3 = None
           \<and> audioTrackCounter s' = audioTrackCounter s + 1
           \<and> unpublishCalls pre =
               (case currentAudioPublication s of None \<Rightarrow> [] | Some p \<Rightarrow> [track p])
           \<and> scheduledChunks pre = []
           \<and> (r = Resolved \<longrightarrow>
                 (\<exists>k s4. post = (SetTimeout settleDelayMs, s4) # loopTrace b s4 0 0 k
                            @ [(SetTimeout (finalDelay (length (channelData b))
                                  (chunkSizeInSamples (sampleRate b)) (sampleRate b)), s4),
                               (DestinationDisconnect, s4), (TrackStop t, s4)]
                        \<and> numChunks (length (channelData b))
                             (chunkSizeInSamples (sampleRate b)) = enat k)))"
    (is "?early \<or> ?published")
proof -
  obtain s1 and tr1 :: "'a trace" where u: "unpublishPrevious env s [] = (s1, tr1)"
    by fastforce
  note uf = unpublishPrevious_facts [OF u]
  have tr1_chunks: "scheduledChunks tr1 = []"
    using u by (auto simp: unpublishPrevious_def split: option.splits if_splits)
  show ?thesis
  proof (cases "resumeContext env s1 tr1")
    case (Inl e)
    with assms u have "r = Rejected e" "s' = s1" "tr = tr1 @ [(ContextResume, s1)]"
      by (auto simp: sendTry_def)
    then have ?early using uf by simp
    then show ?thesis ..
  next
    case (Inr p)
    obtain s2 and tr2 :: "'a trace" where p: "p = (s2, tr2)" by (cases p)
    note rf = resumeContext_facts [OF Inr [unfolded p]]
    have c2: "audioTrackCounter s2 = audioTrackCounter s" using rf(1) uf(1) by simp
    have cur2: "currentAudioPublication s2 = None" using rf(2) uf(1) by simp
    have room2: "room s2 = room s" using rf(3) uf(1) by simp
    have pub2: "filter isPublish tr2 = []" using rf(5) uf(2) by auto
    have unp2: "unpublishCalls tr2 = unpublishCalls tr1" using rf(5) by auto
    have ch2: "scheduledChunks tr2 = []" using rf(5) tr1_chunks by auto
    let ?tr3 = "tr2 @ [(CreateMediaStreamDestination, s2)]"
    show ?thesis
    proof (cases "createDestination_throws env")
      case True
      with assms u Inr p have "r = Rejected (Thrown ''createMediaStreamDestination'')"
        "s' = s2" "tr = ?tr3"
        by (auto simp: sendTry_def Let_def)
      then have ?early using pub2 c2 by simp
      then show ?thesis ..
    next
      case nodest: False
      show ?thesis
      proof (cases "audioTrack env")
        case None
        with assms u Inr p nodest have "r = Rejected (Error ''Failed to create audio track'')"
          "s' = s2" "tr = ?tr3"
          by (auto simp: sendTry_def Let_def)
        then have ?early using pub2 c2 by simp
        then show ?thesis ..
      next
        case (Some t)
        let ?name = "simulatedTrackName (audioTrackCounter s2)"
        let ?s3 = "s2\<lparr>audioTrackCounter := audioTrackCounter s2 + 1\<rparr>"
        show ?thesis
        proof (cases "room s2")
          case False
          with assms u Inr p nodest Some have "r = Rejected (TypeError ''localParticipant'')"
            "s' = ?s3" "tr = ?tr3"
            by (auto simp: sendTry_def Let_def)
          then have ?early using pub2 c2 by simp
          then show ?thesis ..
        next
          case True
          let ?tr4 = "?tr3 @ [(PublishTrack t ?name, ?s3)]"
          have unp: "unpublishCalls ?tr3 =
               (case currentAudioPublication s of None \<Rightarrow> [] | Some p \<Rightarrow> [track p])"
            using unp2 uf(3) True room2 by (simp split: option.splits)
          show ?thesis
          proof (cases "publish_throws env")
            case True
            with assms u Inr p nodest Some \<open>room s2\<close> have "r = Rejected (Thrown ''publishTrack'')"
              "s' = ?s3" "tr = ?tr3 @ (PublishTrack t ?name, ?s3) # []"
              by (auto simp: sendTry_def Let_def)
            then have ?published
              using pub2 c2 cur2 unp ch2
              by (intro exI [of _ ?tr3] exI [of _ "[]"] exI [of _ t] exI [of _ ?s3]) simp
            then show ?thesis ..
          next
            case False
            let ?s4 = "?s3\<lparr>currentAudioPublication := Some \<lparr>track = t, trackName = ?name\<rparr>\<rparr>"
            let ?tr5 = "?tr4 @ [(SetTimeout settleDelayMs, ?s4)]"
            let ?fin = "(SetTimeout (finalDelay (length (channelData b))
                                  (chunkSizeInSamples (sampleRate b)) (sampleRate b)), ?s4)"
            note ctx = assms u Inr p nodest Some \<open>room s2\<close> False
            obtain r6 tr6 where prog: "sendAudioProgressively env b ?s4 ?tr5 = Some (r6, tr6)"
              using ctx by (cases "sendAudioProgressively env b ?s4 ?tr5")
                (auto simp: sendTry_def Let_def)
            from sendAudioProgressively_shape [OF prog] obtain k where
              k: "tr6 = ?tr5 @ loopTrace b ?s4 0 0 k @ (if r6 = Resolved then [?fin] else [])
                  \<and> (r6 = Resolved \<longrightarrow>
                       numChunks (length (channelData b)) (chunkSizeInSamples (sampleRate b)) = enat k)" ..
            show ?thesis
            proof (cases r6)
              case Resolved
              with ctx prog have res: "r = Resolved" "s' = ?s4"
                "tr = tr6 @ [(DestinationDisconnect, ?s4), (TrackStop t, ?s4)]"
                by (auto simp: sendTry_def Let_def)
              let ?post = "(SetTimeout settleDelayMs, ?s4) # loopTrace b ?s4 0 0 k
                            @ [?fin, (DestinationDisconnect, ?s4), (TrackStop t, ?s4)]"
              have "tr = ?tr3 @ (PublishTrack t ?name, ?s3) # ?post"
                using res(3) k Resolved by simp
              moreover have "filter isPublish ?post = []" by (simp add: loopTrace_no_publish)
              moreover have "numChunks (length (channelData b))
                             (chunkSizeInSamples (sampleRate b)) = enat k" using k Resolved by simp
              ultimately have ?published
                using pub2 c2 cur2 unp ch2 res(1,2)
                by (intro exI [of _ ?tr3] exI [of _ ?post] exI [of _ t] exI [of _ ?s3]) auto
              then show ?thesis ..
            next
              case (Rejected e)
              with ctx prog have res: "r = Rejected e" "s' = ?s4" "tr = tr6"
                by (auto simp: sendTry_def Let_def)
              let ?post = "(SetTimeout settleDelayMs, ?s4) # loopTrace b ?s4 0 0 k"
              have "tr = ?tr3 @ (PublishTrack t ?name, ?s3) # ?post"
                using res(3) k Rejected by simp
              moreover have "filter isPublish ?post = []" by (simp add: loopTrace_no_publish)
              ultimately have ?published
                using pub2 c2 cur2 unp ch2 res(1,2)
                by (intro exI [of _ ?tr3] exI [of _ ?post] exI [of _ t] exI [of _ ?s3]) auto
              then show ?thesis ..
            qed
          qed
        qed
      qed
    qed
  qed
qed

lemma sendAudioBuffer_cases:
  fixes b :: "'a AudioBuffer"
  assumes "sendAudioBuffer env b s = Some (r, s', tr)"
  shows "(r \<noteq> Resolved \<and> filter isPublish tr = []
            \<and> audioTrackCounter s \<le> audioTrackCounter s'
            \<and> audioTrackCounter s' \<le> audioTrackCounter s + 1)
       \<or> (\<exists>pre post t s3.
             tr = pre @ (PublishTrack t (simulatedTrackName (audioTrackCounter s)), s3) # post
           \<and> filter isPublish pre = [] \<and> filter isPublish post = []
           \<and> currentAudioPublication s3 = None
           \<and> audioTrackCounter s' = audioTrackCounter s + 1
           \<and> unpublishCalls pre =
               (case currentAudioPublication s of None \<Rightarrow> [] | Some p \<Rightarrow> [track p])
           \<and> scheduledChunks pre = []
           \<and> (r = Resolved \<longrightarrow>
                 (\<exists>k s4. post = (SetTimeout settleDelayMs, s4) # loopTrace b s4 0 0 k
                            @ [(SetTimeout (finalDelay (length (channelData b))
                                  (chunkSizeInSamples (sampleRate b)) (sampleRate b)), s4),
                               (DestinationDisconnect, s4), (TrackStop t, s4)]
                        \<and> numChunks (length (channelData b))
                             (chunkSizeInSamples (sampleRate b)) = enat k)))"
    (is "?early r s' tr \<or> ?published r s' tr")
proof (cases "connected s \<and> audioContext s \<noteq> None")
  case False
  with assms have "tr = []" "s' = s" "r \<noteq> Resolved"
    by (auto simp: sendAudioBuffer_def split: if_splits)
  then show ?thesis by simp
next
  case True
  then obtain r0 s0 and tr0 :: "'a trace" where body: "sendTry env b s = Some (r0, s0, tr0)"
    using assms by (cases "sendTry env b s") (auto simp: sendAudioBuffer_def)
  note cases0 = sendTry_cases [OF body]
  show ?thesis
  proof (cases r0)
    case Resolved
    with assms True body have "r = r0" "s' = s0" "tr = tr0"
      by (auto simp: sendAudioBuffer_def)
    with cases0 show ?thesis by simp
  next
    case (Rejected e)
    with assms True body have res: "r = Rejected e" "s' = s0"
      "tr = tr0 @ [(ConsoleError ''Error sending audio buffer'', s0)]"
      by (auto simp: sendAudioBuffer_def)
    from cases0 show ?thesis
    proof
      assume "?early r0 s0 tr0"
      then have "?early r s' tr" using res by simp
      then show ?thesis ..
    next
      assume "?published r0 s0 tr0"
      then obtain pre post t s3 where
        d: "tr0 = pre @ (PublishTrack t (simulatedTrackName (audioTrackCounter s)), s3) # post"
        and f: "filter isPublish pre = []" "filter isPublish post = []"
           "currentAudioPublication s3 = None"
           "audioTrackCounter s0 = audioTrackCounter s + 1"
           "unpublishCalls pre =
               (case currentAudioPublication s of None \<Rightarrow> [] | Some p \<Rightarrow> [track p])"
           "scheduledChunks pre = []"
        by blast
      let ?post = "post @ [(ConsoleError ''Error sending audio buffer'', s0)]"
      have "tr = pre @ (PublishTrack t (simulatedTrackName (audioTrackCounter s)), s3) # ?post"
        using d res by simp
      moreover have "filter isPublish ?post = []" using f(2) by simp
      ultimately have "?published r s' tr" using f res(1,2)
        by (intro exI [of _ pre] exI [of _ ?post] exI [of _ t] exI [of _ s3]) simp
      then show ?thesis ..
    qed
  qed
qed

lemma publishCalls_no_publish: "filter isPublish tr = [] \<Longrightarrow> publishCalls tr = []"
proof (induction tr)
  case Nil
  show ?case by simp
next
  case (Cons x tr)
  obtain e c where x: "x = (e, c)" by (cases x)
  from Cons show ?case by (cases e) (simp_all add: x split: if_splits)
qed

lemma beforePublish_split:
  assumes "filter isPublish pre = []" and "isPublish x"
  shows "beforePublish (pre @ x # post) = pre" and "afterPublish (pre @ x # post) = post"
proof -
  have all: "\<forall>y\<in>set pre. \<not> isPublish y" using assms(1) by (simp add: filter_empty_conv)
  show "beforePublish (pre @ x # post) = pre"
    using all assms(2) by (simp add: beforePublish_def takeWhile_append)
  show "afterPublish (pre @ x # post) = post"
    using all assms(2) by (simp add: afterPublish_def dropWhile_append)
qed


lemma sendAudioBuffer_runs:
  fixes b :: "'a AudioBuffer"
  assumes "connected s" and "room s" and "audioContext s = Some Running"
    and "\<not> unpublish_throws env" and "\<not> createDestination_throws env"
    and "audioTrack env = Some t" and "\<not> publish_throws env"
    and "\<forall>i. \<not> chunk_throws env i"
    and "0 < chunkSizeInSamples (sampleRate b)"
  shows "\<exists>s' tr. sendAudioBuffer env b s = Some (Resolved, s', tr)
           \<and> connected s' \<and> room s' \<and> audioContext s' = Some Running
           \<and> audioTrackCounter s' = audioTrackCounter s + 1"
proof -
  obtain s1 and tr1 :: "'a trace" where u: "unpublishPrevious env s [] = (s1, tr1)"
    by fastforce
  have s1: "s1 = s\<lparr>currentAudioPublication := None\<rparr>"
    by (rule unpublishPrevious_facts(1) [OF u])
  have r: "resumeContext env s1 tr1 = Inr (s1, tr1)"
    using assms(3) s1 by (simp add: resumeContext_def)
  show ?thesis
    using assms u r s1
    by (simp add: sendAudioBuffer_def sendTry_def Let_def
          sendAudioProgressively_runs [OF assms(9) assms(8)])
qed

lemma chunk_duration_bound:
  fixes m rate :: nat
  assumes "0 < rate" and "m \<le> chunkSizeInSamples rate"
  shows "real m / real rate * 1000 \<le> 20"
proof -
  have "m * 50 \<le> rate div 50 * 50" using assms(2) by (simp add: chunkSizeInSamples_div)
  also have "\<dots> \<le> rate" by simp
  finally have "real (m * 50) \<le> real rate" by (simp only: of_nat_le_iff)
  then have "real m * 50 \<le> real rate" by simp
  then have "real m * 1000 \<le> 20 * real rate" by linarith
  then have "real m * 1000 / real rate \<le> 20"
    using assms(1) by (simp add: pos_divide_le_eq)
  then show ?thesis by simp
qed

lemma loopTrace_durations:
  assumes "0 < sampleRate b"
  shows "chunkDurations b (loopTrace b s i off k) \<le> real chunkDurationMs * real k"
proof (induction k arbitrary: i off)
  case 0
  show ?case by (simp add: chunkDurations_def)
next
  case (Suc k)
  define m where "m = min (chunkSizeInSamples (sampleRate b)) (length (channelData b) - off)"
  have "m \<le> chunkSizeInSamples (sampleRate b)" by (simp add: m_def)
  then have first: "real m / real (sampleRate b) * 1000 \<le> 20"
    by (rule chunk_duration_bound [OF assms])
  have "chunkDurations b (loopTrace b s i off (Suc k))
          = real m / real (sampleRate b) * 1000
            + chunkDurations b (loopTrace b s (i + 1) (off + m) k)"
    by (simp add: chunkDurations_def Let_def m_def)
  also have "\<dots> \<le> 20 + real chunkDurationMs * real k"
    using first Suc.IH [of "i + 1" "off + m"] by linarith
  also have "\<dots> = real chunkDurationMs * real (Suc k)"
    by (simp add: chunkDurationMs_def)
  finally show ?case .
qed

lemma finalDelay_margin: "0 < rate \<Longrightarrow> 100 \<le> finalDelay l c rate"
  by (simp add: finalDelay_def finalChunkDuration_def Let_def)

lemma chunkDurations_simps [simp]:
  "chunkDurations b [] = 0"
  "chunkDurations b (tr @ tr') = chunkDurations b tr + chunkDurations b tr'"
  "chunkDurations b (x # tr) = sum_list (map (\<lambda>c. real (length c) / real (sampleRate b) * 1000) (chunkOf x)) + chunkDurations b tr"
  by (simp_all add: chunkDurations_def)

subsection \<open>The runs of stopCall\<close>

lemma effects_simps [simp]:
  "effects [] = []"
  "effects (x # tr) = fst x # effects tr"
  "effects (tr @ tr') = effects tr @ effects tr'"
  by (simp_all add: effects_def)

lemma stopCall_not_connected: "\<not> connected s \<Longrightarrow> stopCall env s = (None, s, [])"
  by (simp add: stopCall_def)

lemma stopCall_disconnects: "\<not> connected (fst (snd (stopCall env s)))"
  by (simp add: stopCall_def Let_def)

lemma stopCall_listener_throws:
  "connected s \<Longrightarrow> emit_throws env ''call_ended'' \<Longrightarrow>
   stopCall env s = (Some (Thrown ''call_ended''), s\<lparr>connected := False\<rparr>,
                     [(Emit ''call_ended'' None, s\<lparr>connected := False\<rparr>)])"
  by (simp add: stopCall_def Let_def)

lemma stopCall_effects:
  "connected s \<Longrightarrow> \<not> emit_throws env ''call_ended'' \<Longrightarrow>
   effects (snd (snd (stopCall env s))) =
     [Emit ''call_ended'' None]
     @ (if room s then [RoomDisconnect] else [])
     @ (if analyzerComponent s then [AnalyzerCleanup] else [])
     @ (case captureAudioFrame s of None \<Rightarrow> []
        | Some n \<Rightarrow> if n \<noteq> 0 then [CancelAnimationFrame n] else [])
     @ (case currentAudioPublication s of None \<Rightarrow> []
        | Some p \<Rightarrow> [ConsoleWarn ''Error unpublishing track on stopCall''])
     @ (case audioContext s of None \<Rightarrow> []
        | Some c \<Rightarrow> if c \<noteq> Closed then [ContextClose] else [])"
  by (simp add: stopCall_def Let_def split: option.splits)

lemma stopCall_counter:
  "audioTrackCounter (fst (snd (stopCall env s)))
     = (if connected s \<and> \<not> emit_throws env ''call_ended'' then 0 else audioTrackCounter s)"
  by (simp add: stopCall_def Let_def)

subsection \<open>Track names\<close>

lemma toString_nonempty: "toString n \<noteq> []"
  by (subst toString.simps) simp

lemma digit_inj:
  fixes a b :: nat
  assumes "a < 10" and "b < 10" and "(char_of (48 + a) :: char) = char_of (48 + b)"
  shows "a = b"
proof -
  have "(of_char (char_of (48 + a) :: char) :: nat) = of_char (char_of (48 + b) :: char)"
    by (simp only: assms(3))
  then show ?thesis using assms(1,2) by simp
qed

lemma toString_inj: "toString m = toString n \<Longrightarrow> m = n"
proof (induction m arbitrary: n rule: less_induct)
  case (less m)
  show ?case
  proof (cases "m < 10")
    case True
    note m = this
    show ?thesis
    proof (cases "n < 10")
      case True
      with m less.prems show ?thesis
        by (simp add: toString.simps [of m] toString.simps [of n] digit_inj)
    next
      case False
      with m less.prems toString_nonempty [of "n div 10"] show ?thesis
        by (simp add: toString.simps [of m] toString.simps [of n])
    qed
  next
    case False
    note m = this
    show ?thesis
    proof (cases "n < 10")
      case True
      with m less.prems toString_nonempty [of "m div 10"] show ?thesis
        by (simp add: toString.simps [of m] toString.simps [of n])
    next
      case False
      with m less.prems have hi: "toString (m div 10) = toString (n div 10)"
        and lo: "(char_of (48 + m mod 10) :: char) = char_of (48 + n mod 10)"
        by (simp_all add: toString.simps [of m] toString.simps [of n])
      have "m div 10 < m" using m by simp
      then have d: "m div 10 = n div 10" using hi by (rule less.IH)
      have r: "m mod 10 = n mod 10" by (rule digit_inj [OF _ _ lo]) simp_all
      have "m = m div 10 * 10 + m mod 10" by simp
      also have "\<dots> = n div 10 * 10 + n mod 10" by (simp only: d r)
      also have "\<dots> = n" by simp
      finally show ?thesis .
    qed
  qed
qed

lemma simulatedTrackName_inj: "simulatedTrackName m = simulatedTrackName n \<Longrightarrow> m = n"
  by (simp add: simulatedTrackName_def toString_inj)

lemma publishedNames_simps [simp]:
  "publishedNames [] = []"
  "publishedNames (tr @ tr') = publishedNames tr @ publishedNames tr'"
  by (simp_all add: publishedNames_def)

lemma sendAudioBuffer_names:
  fixes b :: "'a AudioBuffer"
  assumes "sendAudioBuffer env b s = Some (r, s', tr)"
  shows "(publishedNames tr = [] \<and> audioTrackCounter s \<le> audioTrackCounter s'
            \<and> audioTrackCounter s' \<le> audioTrackCounter s + 1)
       \<or> (publishedNames tr = [simulatedTrackName (audioTrackCounter s)]
            \<and> audioTrackCounter s' = audioTrackCounter s + 1)"
proof -
  from sendAudioBuffer_cases [OF assms] show ?thesis
  proof
    assume "r \<noteq> Resolved \<and> filter isPublish tr = []
            \<and> audioTrackCounter s \<le> audioTrackCounter s'
            \<and> audioTrackCounter s' \<le> audioTrackCounter s + 1"
    then show ?thesis by (simp add: publishedNames_def publishCalls_no_publish)
  next
    assume "\<exists>pre post t s3.
             tr = pre @ (PublishTrack t (simulatedTrackName (audioTrackCounter s)), s3) # post
           \<and> filter isPublish pre = [] \<and> filter isPublish post = []
           \<and> currentAudioPublication s3 = None
           \<and> audioTrackCounter s' = audioTrackCounter s + 1
           \<and> unpublishCalls pre =
               (case currentAudioPublication s of None \<Rightarrow> [] | Some p \<Rightarrow> [track p])
           \<and> scheduledChunks pre = []
           \<and> (r = Resolved \<longrightarrow>
                 (\<exists>k s4. post = (SetTimeout settleDelayMs, s4) # loopTrace b s4 0 0 k
                            @ [(SetTimeout (finalDelay (length (channelData b))
                                  (chunkSizeInSamples (sampleRate b)) (sampleRate b)), s4),
                               (DestinationDisconnect, s4), (TrackStop t, s4)]
                        \<and> numChunks (length (channelData b))
                             (chunkSizeInSamples (sampleRate b)) = enat k))"
    then obtain pre post t s3 where
      d: "tr = pre @ (PublishTrack t (simulatedTrackName (audioTrackCounter s)), s3) # post"
      and f: "filter isPublish pre = []" "filter isPublish post = []"
           "audioTrackCounter s' = audioTrackCounter s + 1"
      by blast
    have "publishedNames tr = [simulatedTrackName (audioTrackCounter s)]"
      using d f(1,2) by (simp add: publishedNames_def publishCalls_no_publish)
    then show ?thesis using f(3) by simp
  qed
qed

lemma sendAll_names:
  fixes calls :: "(env \<times> 'a AudioBuffer) list"
  assumes "sendAll calls s = Some (s', tr)"
  shows "\<exists>ns. publishedNames tr = map simulatedTrackName ns \<and> sorted_wrt (<) ns
            \<and> (\<forall>n\<in>set ns. audioTrackCounter s \<le> n \<and> n < audioTrackCounter s')
            \<and> audioTrackCounter s \<le> audioTrackCounter s'"
  using assms
proof (induction calls arbitrary: s s' tr)
  case Nil
  then show ?case by (intro exI [of _ "[]"]) simp
next
  case (Cons c calls)
  from Cons.prems obtain r s1 and tr1 :: "'a trace" where
    one: "sendAudioBuffer (fst c) (snd c) s = Some (r, s1, tr1)"
    by (cases "sendAudioBuffer (fst c) (snd c) s") auto
  from Cons.prems one obtain tr2 where
    rest: "sendAll calls s1 = Some (s', tr2)" and tr: "tr = tr1 @ tr2"
    by (cases "sendAll calls s1") auto
  from Cons.IH [OF rest] obtain ns where
    ns: "publishedNames tr2 = map simulatedTrackName ns" "sorted_wrt (<) ns"
        "\<forall>n\<in>set ns. audioTrackCounter s1 \<le> n \<and> n < audioTrackCounter s'"
        "audioTrackCounter s1 \<le> audioTrackCounter s'"
    by blast
  from sendAudioBuffer_names [OF one] show ?case
  proof
    assume a: "publishedNames tr1 = [] \<and> audioTrackCounter s \<le> audioTrackCounter s1
            \<and> audioTrackCounter s1 \<le> audioTrackCounter s + 1"
    have "\<forall>n\<in>set ns. audioTrackCounter s \<le> n \<and> n < audioTrackCounter s'"
      using ns(3) a by auto
    then show ?thesis using a ns tr by (intro exI [of _ ns]) simp
  next
    assume a: "publishedNames tr1 = [simulatedTrackName (audioTrackCounter s)]
            \<and> audioTrackCounter s1 = audioTrackCounter s + 1"
    have "\<forall>n\<in>set (audioTrackCounter s # ns). audioTrackCounter s \<le> n \<and> n < audioTrackCounter s'"
      using ns(3,4) a by auto
    moreover have "sorted_wrt (<) (audioTrackCounter s # ns)" using ns(2,3) a by auto
    ultimately show ?thesis using a ns tr
      by (intro exI [of _ "audioTrackCounter s # ns"]) simp
  qed
qed


lemma chunkLoop_first_throws:
  assumes "chunk_throws env 0" and "0 < k"
  shows "chunkLoop env b s (enat k) 0 0 tr = Some (Rejected (Thrown ''chunk''), tr)"
  using assms by (subst chunkLoop.simps) (simp add: Let_def)

lemma first_chunk_throws_run:
  assumes "chunk_throws env 0"
  shows "sendAudioProgressively env (clip 24000 480) s tr = Some (Rejected (Thrown ''chunk''), tr)"
proof -
  have n: "numChunks 480 480 = enat 1" by (simp add: numChunks_pos)
  have "chunkLoop env (clip 24000 480) s (enat 1) 0 0 tr
     = Some (Rejected (Thrown ''chunk''), tr)"
    by (rule chunkLoop_first_throws [OF assms]) simp
  then show ?thesis
    by (simp add: sendAudioProgressively_def Let_def clip_def chunkSizeInSamples_div n)
qed

lemma resolved_names:
  fixes b :: "'a AudioBuffer"
  assumes "sendAudioBuffer env b s = Some (Resolved, s', tr)"
  shows "publishedNames tr = [simulatedTrackName (audioTrackCounter s)]"
proof -
  from sendAudioBuffer_cases [OF assms] obtain pre post t s3 where
    d: "tr = pre @ (PublishTrack t (simulatedTrackName (audioTrackCounter s)), s3) # post"
    and f: "filter isPublish pre = []" "filter isPublish post = []"
    by auto
  show ?thesis using d f by (simp add: publishedNames_def publishCalls_no_publish)
qed

subsection \<open>The data handler\<close>

lemma onDataReceived_never_throws: "fst (onDataReceived P L payload identity s) = None"
  by (simp add: onDataReceived_def split: prod.splits option.splits)


section \<open>The claims\<close>

subsection \<open>Chunking\<close>

text \<open>
  C1. A clip of \<open>L > 0\<close> samples at a rate \<open>R\<close> of at least 50 Hz (so that
  \<open>floor(R * 20 / 1000)\<close> is at least one sample), sent while no call of the loop throws:
  \<open>sendAudioProgressively\<close> resolves, and it has scheduled exactly
  \<open>ceil(L / floor(R * 20 / 1000))\<close> chunks; every chunk but the last has
  \<open>floor(R * 20 / 1000)\<close> samples, and the last has \<open>L mod\<close> that many samples, or a full
  chunk when the division is exact. At 24000 Hz, 8400 samples (0.35 s) give 17 chunks of 480
  samples and one of 240, and 24000 samples (1 s) give 50 chunks of 480.
\<close>

theorem progressive_chunk_sizes:
  fixes b :: "'a AudioBuffer"
  assumes "0 < length (channelData b)"
    and "50 \<le> sampleRate b"
    and "\<forall>i. \<not> chunk_throws env i"
  shows "\<exists>new. sendAudioProgressively env b s tr = Some (Resolved, tr @ new)
    \<and> length (scheduledChunks new)
        = nat \<lceil>real (length (channelData b)) / real (sampleRate b * 20 div 1000)\<rceil>
    \<and> (\<forall>j. j + 1 < length (scheduledChunks new) \<longrightarrow>
          length (scheduledChunks new ! j) = sampleRate b * 20 div 1000)
    \<and> length (last (scheduledChunks new))
        = (if length (channelData b) mod (sampleRate b * 20 div 1000) = 0
           then sampleRate b * 20 div 1000
           else length (channelData b) mod (sampleRate b * 20 div 1000))
    \<and> (sampleRate b = 24000 \<and> length (channelData b) = 8400 \<longrightarrow>
          map length (scheduledChunks new) = replicate 17 480 @ [240])
    \<and> (sampleRate b = 24000 \<and> length (channelData b) = 24000 \<longrightarrow>
          map length (scheduledChunks new) = replicate 50 480)"
proof -
  have c: "0 < chunkSizeInSamples (sampleRate b)"
    using assms(2) by (simp add: chunkSizeInSamples_div)
  show ?thesis
    using chunk_sizes_model [OF assms(1) c assms(3), of s tr]
    unfolding chunkSize_arith .
qed

theorem progressive_chunk_sizes_witness:
  "(\<exists>new. sendAudioProgressively quiet (clip 24000 8400) simulating [] = Some (Resolved, new)
      \<and> map length (scheduledChunks new) = replicate 17 480 @ [240])
   \<and> (\<exists>new. sendAudioProgressively quiet (clip 24000 24000) simulating [] = Some (Resolved, new)
      \<and> map length (scheduledChunks new) = replicate 50 480)
   \<and> (\<exists>new. sendAudioProgressively quiet (clip 48000 2000) simulating [] = Some (Resolved, new)
      \<and> length (scheduledChunks new) = 3
      \<and> length (scheduledChunks new ! 0) = 960
      \<and> length (last (scheduledChunks new)) = 80)"
proof -
  have a: "0 < length (channelData (clip 24000 8400))"
    and b: "50 \<le> sampleRate (clip 24000 8400)"
    and c: "0 < length (channelData (clip 24000 24000))"
    and d: "50 \<le> sampleRate (clip 24000 24000)"
    and f: "0 < length (channelData (clip 48000 2000))"
    and g: "50 \<le> sampleRate (clip 48000 2000)"
    and e: "\<forall>i. \<not> chunk_throws quiet i"
    by (simp_all add: clip_def quiet_def)
  from progressive_chunk_sizes [OF a b e, of simulating "[]"]
  have 1: "\<exists>new. sendAudioProgressively quiet (clip 24000 8400) simulating [] = Some (Resolved, new)
      \<and> map length (scheduledChunks new) = replicate 17 480 @ [240]"
    by (elim exE conjE) (simp add: clip_def)
  from progressive_chunk_sizes [OF c d e, of simulating "[]"]
  have 2: "\<exists>new. sendAudioProgressively quiet (clip 24000 24000) simulating [] = Some (Resolved, new)
      \<and> map length (scheduledChunks new) = replicate 50 480"
    by (elim exE conjE) (simp add: clip_def)
  have n: "nat \<lceil>real 2000 / real 960\<rceil> = 3"
    using ceiling_div_nat [of 960 2000] by simp
  from progressive_chunk_sizes [OF f g e, of simulating "[]"]
  have 3: "\<exists>new. sendAudioProgressively quiet (clip 48000 2000) simulating [] = Some (Resolved, new)
      \<and> length (scheduledChunks new) = 3
      \<and> length (scheduledChunks new ! 0) = 960
      \<and> length (last (scheduledChunks new)) = 80"
    using n by (elim exE conjE) (simp add: clip_def)
  from 1 2 3 show ?thesis by (intro conjI)
qed

text \<open>
  C2. For every clip at a rate of at least 50 Hz, sent while no call of the loop throws,
  \<open>sendAudioProgressively\<close> resolves, and the sample arrays it has scheduled, concatenated
  in the order of scheduling, are the samples of the clip: no sample is dropped, repeated
  or moved.
\<close>

theorem progressive_round_trip:
  fixes b :: "'a AudioBuffer"
  assumes "50 \<le> sampleRate b" and "\<forall>i. \<not> chunk_throws env i"
  shows "\<exists>new. sendAudioProgressively env b s tr = Some (Resolved, tr @ new)
           \<and> concat (scheduledChunks new) = channelData b"
proof -
  let ?c = "chunkSizeInSamples (sampleRate b)"
  let ?l = "length (channelData b)"
  let ?k = "(?l + ?c - 1) div ?c"
  let ?new = "loopTrace b s 0 0 ?k @ [(SetTimeout (finalDelay ?l ?c (sampleRate b)), s)]"
  have c: "0 < ?c" using assms(1) by (simp add: chunkSizeInSamples_div)
  have run: "sendAudioProgressively env b s tr = Some (Resolved, tr @ ?new)"
    using sendAudioProgressively_runs [OF c assms(2)] by simp
  have "numChunks ?l ?c = enat ?k" by (rule numChunks_pos [OF c])
  then have "concat (scheduledChunks (loopTrace b s 0 0 ?k)) = channelData b"
    by (rule loopTrace_round_trip)
  then have "concat (scheduledChunks ?new) = channelData b" by simp
  with run show ?thesis by (intro exI [of _ ?new] conjI)
qed

theorem progressive_round_trip_witness:
  "\<exists>new. sendAudioProgressively quiet (clip 100 5) simulating [] = Some (Resolved, new)
     \<and> concat (scheduledChunks new) = [0..<5]"
proof -
  have r: "50 \<le> sampleRate (clip 100 5)" and e: "\<forall>i. \<not> chunk_throws quiet i"
    by (simp_all add: clip_def quiet_def)
  from progressive_round_trip [OF r e, of simulating "[]"] show ?thesis
    by (simp add: clip_def)
qed

subsection \<open>Publications\<close>





subsection \<open>The guards\<close>

text \<open>
  C5. Called while \<open>connected\<close> is false, or while there is no audio context,
  \<open>sendAudioBuffer\<close> rejects before any \<open>await\<close> with the error message of the guard that
  failed; it calls none of its collaborators (the trace is empty, so no track, publication
  or audio context is created) and leaves every field of the client as it was. The
  whole-buffer variant does the same.
\<close>

theorem send_guards_reject_without_effect:
  assumes "\<not> connected s \<or> audioContext s = None"
  shows "sendAudioBuffer env b s =
           Some (Rejected (Error (if \<not> connected s
                                  then ''Cannot send audio buffer: not connected to call''
                                  else ''AudioContext not initialized. Make sure to set simulationMode: true in startCall()'')),
                 s, [])
       \<and> sendAudioBuffer_whole env b s = sendAudioBuffer env b s"
  using assms by (auto simp: sendAudioBuffer_def sendAudioBuffer_whole_def)

theorem send_guards_reject_without_effect_witness:
  "sendAudioBuffer quiet (clip 24000 480) (simulating\<lparr>connected := False\<rparr>)
     = Some (Rejected (Error ''Cannot send audio buffer: not connected to call''),
             simulating\<lparr>connected := False\<rparr>, [])
   \<and> sendAudioBuffer quiet (clip 24000 480) (simulating\<lparr>audioContext := None\<rparr>)
     = Some (Rejected (Error ''AudioContext not initialized. Make sure to set simulationMode: true in startCall()''),
             simulating\<lparr>audioContext := None\<rparr>, [])"
  using send_guards_reject_without_effect [of "simulating\<lparr>connected := False\<rparr>" quiet "clip 24000 480"]
    send_guards_reject_without_effect [of "simulating\<lparr>audioContext := None\<rparr>" quiet "clip 24000 480"]
  by (simp add: simulating_def)


subsection \<open>Timing\<close>

text \<open>
  C6. In a run of \<open>sendAudioBuffer\<close> that resolves, for a clip of \<open>L\<close> samples at a positive
  sample rate \<open>R\<close>: the call right after \<open>publishTrack\<close> is the awaited settle timer of 200 ms
  (within 150 to 400 ms), no chunk is scheduled before the publish, the chunks scheduled
  are the whole clip, so that their durations add up to the duration of the clip,
  \<open>L / R * 1000\<close> ms, and the delays of the timers awaited between the publish and the
  resolution add up to at least 200 ms plus that duration plus a margin of 100 ms. A timer
  never fires before its delay, so this sum is a lower bound of the time that has passed.
  At a rate of at least 50 Hz the sum is exactly 200 ms, 20 ms for each of the
  \<open>ceil(L / floor(R * 20 / 1000))\<close> chunks, the duration of the last chunk and 100 ms.
\<close>

theorem resolves_after_settle_chunks_and_margin:
  fixes b :: "'a AudioBuffer"
  assumes "sendAudioBuffer env b s = Some (Resolved, s', tr)" and "0 < sampleRate b"
  shows "map fst (take 1 (afterPublish tr)) = [SetTimeout 200]
       \<and> scheduledChunks (beforePublish tr) = []
       \<and> concat (scheduledChunks tr) = channelData b
       \<and> chunkDurations b tr = real (length (channelData b)) / real (sampleRate b) * 1000
       \<and> 200 + real (length (channelData b)) / real (sampleRate b) * 1000 + 100
           \<le> waited (afterPublish tr)
       \<and> (50 \<le> sampleRate b \<longrightarrow>
            waited (afterPublish tr)
              = 200
                + 20 * real (nat \<lceil>real (length (channelData b))
                                    / real (sampleRate b * 20 div 1000)\<rceil>)
                + (real (if length (channelData b) mod (sampleRate b * 20 div 1000) = 0
                         then sampleRate b * 20 div 1000
                         else length (channelData b) mod (sampleRate b * 20 div 1000))
                     / real (sampleRate b) * 1000
                   + 100))"
proof -
  let ?l = "length (channelData b)"
  let ?c = "chunkSizeInSamples (sampleRate b)"
  let ?fin = "finalDelay ?l ?c (sampleRate b)"
  from sendAudioBuffer_cases [OF assms(1)] obtain pre post t s3 k s4 where
    d: "tr = pre @ (PublishTrack t (simulatedTrackName (audioTrackCounter s)), s3) # post"
    and pre: "filter isPublish pre = []" "scheduledChunks pre = []"
    and post: "post = (SetTimeout settleDelayMs, s4) # loopTrace b s4 0 0 k
                 @ [(SetTimeout ?fin, s4), (DestinationDisconnect, s4), (TrackStop t, s4)]"
    and n: "numChunks ?l ?c = enat k"
    by auto
  have after: "afterPublish tr = post" and before: "beforePublish tr = pre"
    unfolding d by (rule beforePublish_split [OF pre(1)], simp)+
  have chunks: "scheduledChunks tr = scheduledChunks (loopTrace b s4 0 0 k)"
    by (simp add: d pre(2) post)
  have whole: "concat (scheduledChunks tr) = channelData b"
    unfolding chunks by (rule loopTrace_round_trip [OF n])
  have durs: "chunkDurations b tr = real ?l / real (sampleRate b) * 1000"
    unfolding chunkDurations_def durations_sum whole by (rule refl)
  have loopdurs: "chunkDurations b (loopTrace b s4 0 0 k) = chunkDurations b tr"
    by (simp add: chunkDurations_def chunks)
  have w: "waited post = 200 + 20 * real k + ?fin"
    by (simp add: post loopTrace_waited settleDelayMs_def chunkDurationMs_def)
  have bound: "200 + real ?l / real (sampleRate b) * 1000 + 100 \<le> waited post"
    using loopTrace_durations [OF assms(2), of s4 0 0 k] finalDelay_margin [OF assms(2), of ?l ?c]
    unfolding loopdurs durs w by (simp add: chunkDurationMs_def)
  have first: "map fst (take 1 post) = [SetTimeout 200]"
    by (simp add: post settleDelayMs_def)
  have exact: "50 \<le> sampleRate b \<longrightarrow>
            waited post
              = 200 + 20 * real (nat \<lceil>real ?l / real (sampleRate b * 20 div 1000)\<rceil>)
                + (real (if ?l mod (sampleRate b * 20 div 1000) = 0
                         then sampleRate b * 20 div 1000
                         else ?l mod (sampleRate b * 20 div 1000))
                     / real (sampleRate b) * 1000
                   + 100)"
  proof
    assume r: "50 \<le> sampleRate b"
    then have c: "0 < ?c" by (simp add: chunkSizeInSamples_div)
    have k: "k = nat \<lceil>real ?l / real ?c\<rceil>"
      using n c by (simp add: numChunks_def)
    have fin: "?fin = real (if ?l mod ?c = 0 then ?c else ?l mod ?c)
                        / real (sampleRate b) * 1000 + 100"
      using c assms(2) by (simp add: finalDelay_def finalChunkDuration_def Let_def)
    show "waited post
              = 200 + 20 * real (nat \<lceil>real ?l / real (sampleRate b * 20 div 1000)\<rceil>)
                + (real (if ?l mod (sampleRate b * 20 div 1000) = 0
                         then sampleRate b * 20 div 1000
                         else ?l mod (sampleRate b * 20 div 1000))
                     / real (sampleRate b) * 1000
                   + 100)"
    proof -
      have "waited post
              = 200 + 20 * real (nat \<lceil>real ?l / real ?c\<rceil>)
                + (real (if ?l mod ?c = 0 then ?c else ?l mod ?c)
                     / real (sampleRate b) * 1000
                   + 100)"
        unfolding w fin by (simp only: k [symmetric])
      then show ?thesis unfolding chunkSize_arith .
    qed
  qed
  from first pre(2) whole durs bound exact show ?thesis
    unfolding after before by (intro conjI)
qed

theorem resolves_after_settle_chunks_and_margin_witness:
  "\<exists>s' tr. sendAudioBuffer quiet (clip 24000 8400) simulating = Some (Resolved, s', tr)
      \<and> map fst (take 1 (afterPublish tr)) = [SetTimeout 200]
      \<and> waited (afterPublish tr) = 670
      \<and> 200 + 350 + 100 \<le> waited (afterPublish tr)"
proof -
  obtain s' and tr :: "nat trace" where
    run: "sendAudioBuffer quiet (clip 24000 8400) simulating = Some (Resolved, s', tr)"
    using sendAudioBuffer_runs [of simulating quiet 1 "clip 24000 8400"]
    by (auto simp: simulating_def quiet_def clip_def chunkSizeInSamples_div)
  have rate: "0 < sampleRate (clip 24000 8400)" by (simp add: clip_def)
  have n: "nat \<lceil>real 8400 / real 480\<rceil> = 18"
    using ceiling_div_nat [of 480 8400] by simp
  note t = resolves_after_settle_chunks_and_margin [OF run rate]
  have 1: "map fst (take 1 (afterPublish tr)) = [SetTimeout 200]" by (rule conjunct1 [OF t])
  have 2: "waited (afterPublish tr) = 670" using t n by (simp add: clip_def)
  have 3: "200 + 350 + 100 \<le> waited (afterPublish tr)" using 2 by simp
  from run 1 2 3 show ?thesis by (intro exI [of _ s'] exI [of _ tr] conjI)
qed

subsection \<open>stopCall\<close>

text \<open>
  C7. Two calls of \<open>stopCall\<close> in succession. The second call does nothing, whatever the
  first did: it calls none of the collaborators and changes no field. What the first call
  does is not what the claim lists, on two inputs. On a connected client that holds a stored
  publication, the two calls together never call \<open>unpublishTrack\<close>: the first call emits
  \<open>call_ended\<close>, disconnects the room, logs the warning of the failed unpublish and closes
  the context. With a \<open>call_ended\<close> listener that throws, the first call ends with that
  exception right after the emit, with \<open>connected\<close> already false, and the second call
  does nothing: the room is never disconnected, the context never closed, the publication
  stays stored and the counter is not reset.
\<close>

theorem stopCall_twice_never_unpublishes:
  "stopCall env (fst (snd (stopCall env s :: error option \<times> client \<times> 'a trace)))
     = (None, fst (snd (stopCall env s :: error option \<times> client \<times> 'a trace)), ([] :: 'a trace))
   \<and> currentAudioPublication published = Some \<lparr>track = 7, trackName = ''simulated_audio_0''\<rparr>
   \<and> effects (snd (snd (stopCall quiet published :: error option \<times> client \<times> 'a trace)))
       = [Emit ''call_ended'' None, RoomDisconnect,
          ConsoleWarn ''Error unpublishing track on stopCall'', ContextClose]
   \<and> unpublishCalls
        (snd (snd (stopCall quiet published :: error option \<times> client \<times> 'a trace))
         @ snd (snd (stopCall quiet
             (fst (snd (stopCall quiet published :: error option \<times> client \<times> 'a trace)))
               :: error option \<times> client \<times> 'a trace))) = []
   \<and> (stopCall (quiet\<lparr>emit_throws := (\<lambda>name. True)\<rparr>) published
         :: error option \<times> client \<times> 'a trace)
       = (Some (Thrown ''call_ended''), published\<lparr>connected := False\<rparr>,
          [(Emit ''call_ended'' None, published\<lparr>connected := False\<rparr>)])
   \<and> (stopCall (quiet\<lparr>emit_throws := (\<lambda>name. True)\<rparr>) (published\<lparr>connected := False\<rparr>)
         :: error option \<times> client \<times> 'a trace)
       = (None, published\<lparr>connected := False\<rparr>, [])"
proof (intro conjI)
  show "stopCall env (fst (snd (stopCall env s :: error option \<times> client \<times> 'a trace)))
     = (None, fst (snd (stopCall env s :: error option \<times> client \<times> 'a trace)), ([] :: 'a trace))"
    by (rule stopCall_not_connected) (rule stopCall_disconnects)
  show "currentAudioPublication published = Some \<lparr>track = 7, trackName = ''simulated_audio_0''\<rparr>"
    by (simp add: published_def)
  show "effects (snd (snd (stopCall quiet published :: error option \<times> client \<times> 'a trace)))
       = [Emit ''call_ended'' None, RoomDisconnect,
          ConsoleWarn ''Error unpublishing track on stopCall'', ContextClose]"
    by (simp add: stopCall_effects published_def simulating_def quiet_def)
  show "unpublishCalls
        (snd (snd (stopCall quiet published :: error option \<times> client \<times> 'a trace))
         @ snd (snd (stopCall quiet
             (fst (snd (stopCall quiet published :: error option \<times> client \<times> 'a trace)))
               :: error option \<times> client \<times> 'a trace))) = []"
    by (simp add: stopCall_not_connected [OF stopCall_disconnects])
       (simp add: stopCall_def Let_def split: option.splits)
  show "(stopCall (quiet\<lparr>emit_throws := (\<lambda>name. True)\<rparr>) published
         :: error option \<times> client \<times> 'a trace)
       = (Some (Thrown ''call_ended''), published\<lparr>connected := False\<rparr>,
          [(Emit ''call_ended'' None, published\<lparr>connected := False\<rparr>)])"
    by (rule stopCall_listener_throws) (simp_all add: published_def simulating_def)
  show "(stopCall (quiet\<lparr>emit_throws := (\<lambda>name. True)\<rparr>) (published\<lparr>connected := False\<rparr>)
         :: error option \<times> client \<times> 'a trace)
       = (None, published\<lparr>connected := False\<rparr>, [])"
    by (rule stopCall_not_connected) simp
qed

text \<open>
  C8. What \<open>stopCall\<close> does with a stored publication: no run of \<open>stopCall\<close> calls
  \<open>unpublishTrack\<close>. The room has been deleted when the block that unpublishes is reached,
  so reading \<open>this.room.localParticipant\<close> throws and the \<open>catch\<close> logs a warning. On a
  connected client with a room, a running context and a stored publication the calls are:
  emit \<open>call_ended\<close>, disconnect the room, the warning, close the context.
\<close>

theorem stopCall_unpublish_misses_room:
  "unpublishCalls (snd (snd (stopCall env s :: error option \<times> client \<times> 'a trace))) = []
   \<and> effects (snd (snd (stopCall quiet published :: error option \<times> client \<times> 'a trace)))
       = [Emit ''call_ended'' None, RoomDisconnect,
          ConsoleWarn ''Error unpublishing track on stopCall'', ContextClose]"
proof
  show "unpublishCalls (snd (snd (stopCall env s :: error option \<times> client \<times> 'a trace))) = []"
    by (simp add: stopCall_def Let_def split: option.splits)
  show "effects (snd (snd (stopCall quiet published :: error option \<times> client \<times> 'a trace)))
       = [Emit ''call_ended'' None, RoomDisconnect,
          ConsoleWarn ''Error unpublishing track on stopCall'', ContextClose]"
    by (simp add: stopCall_effects published_def simulating_def quiet_def)
qed

subsection \<open>Teardown\<close>

text \<open>
  C4. What the two variants do about teardown, on concrete runs of a connected client in
  simulation mode with a clip of one chunk. In the progressive variant, a run in which
  \<open>publishTrack\<close> rejects, and a run in which scheduling the first chunk throws, both
  reject without disconnecting the destination and without stopping the track: the two
  calls stand after \<open>sendAudioProgressively\<close> inside the \<open>try\<close>, and the \<open>catch\<close> only logs
  and throws again. The whole-buffer variant rejects without teardown too when
  \<open>publishTrack\<close> rejects, while its timeout path disconnects both nodes and stops the
  track before it rejects. The run of the progressive variant that resolves disconnects
  the destination and stops the track.
\<close>

theorem failed_send_skips_teardown:
  "map_option (\<lambda>r. (fst r, teardownCalls (snd (snd r))))
     (sendAudioBuffer (quiet\<lparr>publish_throws := True\<rparr>) (clip 24000 480) simulating)
     = Some (Rejected (Thrown ''publishTrack''), [])
   \<and> map_option (\<lambda>r. (fst r, teardownCalls (snd (snd r))))
     (sendAudioBuffer (quiet\<lparr>chunk_throws := (\<lambda>i. True)\<rparr>) (clip 24000 480) simulating)
     = Some (Rejected (Thrown ''chunk''), [])
   \<and> map_option (\<lambda>r. (fst r, teardownCalls (snd (snd r))))
     (sendAudioBuffer_whole (quiet\<lparr>publish_throws := True\<rparr>) (clip 24000 480) simulating)
     = Some (Rejected (Thrown ''publishTrack''), [])
   \<and> map_option (\<lambda>r. (fst r, teardownCalls (snd (snd r))))
     (sendAudioBuffer_whole (quiet\<lparr>playback := TimedOut\<rparr>) (clip 24000 480) simulating)
     = Some (Rejected (Error ''Audio buffer playback timeout''),
             [SourceDisconnect, DestinationDisconnect, TrackStop 1])
   \<and> map_option (\<lambda>r. (fst r, teardownCalls (snd (snd r))))
     (sendAudioBuffer quiet (clip 24000 480) simulating)
     = Some (Resolved, [DestinationDisconnect, TrackStop 1])"
proof (intro conjI)
  show "map_option (\<lambda>r. (fst r, teardownCalls (snd (snd r))))
     (sendAudioBuffer (quiet\<lparr>publish_throws := True\<rparr>) (clip 24000 480) simulating)
     = Some (Rejected (Thrown ''publishTrack''), [])"
    by (simp add: sendAudioBuffer_def sendTry_def unpublishPrevious_def resumeContext_def
          Let_def simulating_def quiet_def)
  show "map_option (\<lambda>r. (fst r, teardownCalls (snd (snd r))))
     (sendAudioBuffer (quiet\<lparr>chunk_throws := (\<lambda>i. True)\<rparr>) (clip 24000 480) simulating)
     = Some (Rejected (Thrown ''chunk''), [])"
    by (simp add: sendAudioBuffer_def sendTry_def unpublishPrevious_def resumeContext_def
          Let_def simulating_def quiet_def first_chunk_throws_run)
  show "map_option (\<lambda>r. (fst r, teardownCalls (snd (snd r))))
     (sendAudioBuffer_whole (quiet\<lparr>publish_throws := True\<rparr>) (clip 24000 480) simulating)
     = Some (Rejected (Thrown ''publishTrack''), [])"
    by (simp add: sendAudioBuffer_whole_def unpublishPrevious_def resumeContext_def caught_def
          Let_def simulating_def quiet_def)
  show "map_option (\<lambda>r. (fst r, teardownCalls (snd (snd r))))
     (sendAudioBuffer_whole (quiet\<lparr>playback := TimedOut\<rparr>) (clip 24000 480) simulating)
     = Some (Rejected (Error ''Audio buffer playback timeout''),
             [SourceDisconnect, DestinationDisconnect, TrackStop 1])"
    by (simp add: sendAudioBuffer_whole_def unpublishPrevious_def resumeContext_def caught_def
          cleanup_def Let_def simulating_def quiet_def)
  show "map_option (\<lambda>r. (fst r, teardownCalls (snd (snd r))))
     (sendAudioBuffer quiet (clip 24000 480) simulating)
     = Some (Resolved, [DestinationDisconnect, TrackStop 1])"
    by (simp add: sendAudioBuffer_def sendTry_def unpublishPrevious_def resumeContext_def
          Let_def simulating_def quiet_def sendAudioProgressively_runs clip_def
          chunkSizeInSamples_div loopTrace_teardownCalls)
qed


subsection \<open>Track names\<close>

text \<open>
  C9. In any sequence of \<open>sendAudioBuffer\<close> calls on one client with no \<open>stopCall\<close> between
  them, whatever fails in each, the names given to \<open>publishTrack\<close> are pairwise distinct:
  the counter behind the suffix never decreases during a send. A \<open>stopCall\<close> that runs to
  its end (on a connected client, with no \<open>call_ended\<close> listener that throws) sets the
  counter back to zero; any other \<open>stopCall\<close> leaves it as it is.
\<close>

theorem track_names_never_repeat:
  fixes calls :: "(env \<times> 'a AudioBuffer) list"
  assumes "sendAll calls s = Some (s', tr)"
  shows "distinct (publishedNames tr)
       \<and> audioTrackCounter s \<le> audioTrackCounter s'
       \<and> audioTrackCounter (fst (snd (stopCall env s' :: error option \<times> client \<times> 'a trace)))
           = (if connected s' \<and> \<not> emit_throws env ''call_ended'' then 0
              else audioTrackCounter s')"
proof -
  from sendAll_names [OF assms] obtain ns where
    ns: "publishedNames tr = map simulatedTrackName ns" "sorted_wrt (<) ns"
        "audioTrackCounter s \<le> audioTrackCounter s'"
    by blast
  have "distinct ns" using ns(2) by (simp add: strict_sorted_iff)
  moreover have "inj_on simulatedTrackName (set ns)"
    by (rule inj_onI) (rule simulatedTrackName_inj)
  ultimately have "distinct (publishedNames tr)" by (simp add: ns(1) distinct_map)
  moreover have "audioTrackCounter (fst (snd (stopCall env s' :: error option \<times> client \<times> 'a trace)))
           = (if connected s' \<and> \<not> emit_throws env ''call_ended'' then 0
              else audioTrackCounter s')"
    by (rule stopCall_counter)
  ultimately show ?thesis using ns(3) by simp
qed

theorem track_names_never_repeat_witness:
  "\<exists>s' tr. sendAll [(quiet, clip 100 5), (quiet, clip 100 5)] simulating = Some (s', tr)
      \<and> publishedNames tr = [simulatedTrackName 0, simulatedTrackName 1]
      \<and> distinct (publishedNames tr)
      \<and> audioTrackCounter simulating \<le> audioTrackCounter s'
      \<and> audioTrackCounter s' = 2
      \<and> audioTrackCounter (fst (snd (stopCall quiet s' :: error option \<times> client \<times> nat trace))) = 0"
proof -
  have size: "0 < chunkSizeInSamples (sampleRate (clip 100 5))"
    by (simp add: clip_def chunkSizeInSamples_div)
  obtain s1 and tr1 :: "nat trace" where
    run1: "sendAudioBuffer quiet (clip 100 5) simulating = Some (Resolved, s1, tr1)"
    and s1: "connected s1" "room s1" "audioContext s1 = Some Running" "audioTrackCounter s1 = 1"
    using sendAudioBuffer_runs [of simulating quiet 1 "clip 100 5", OF _ _ _ _ _ _ _ _ size]
    by (auto simp: simulating_def quiet_def)
  obtain s2 and tr2 :: "nat trace" where
    run2: "sendAudioBuffer quiet (clip 100 5) s1 = Some (Resolved, s2, tr2)"
    and s2: "connected s2" "audioTrackCounter s2 = 2"
    using sendAudioBuffer_runs [of s1 quiet 1 "clip 100 5", OF s1(1,2,3) _ _ _ _ _ size] s1(4)
    by (auto simp: quiet_def)
  have all: "sendAll [(quiet, clip 100 5), (quiet, clip 100 5)] simulating = Some (s2, tr1 @ tr2)"
    by (simp add: run1 run2)
  have names: "publishedNames (tr1 @ tr2) = [simulatedTrackName 0, simulatedTrackName 1]"
    using resolved_names [OF run1] resolved_names [OF run2] s1(4)
    by (simp add: simulating_def)
  note t = track_names_never_repeat [OF all, of quiet]
  have d: "distinct (publishedNames (tr1 @ tr2))" by (rule conjunct1 [OF t])
  have le: "audioTrackCounter simulating \<le> audioTrackCounter s2"
    by (rule conjunct1 [OF conjunct2 [OF t]])
  have reset: "audioTrackCounter (fst (snd (stopCall quiet s2 :: error option \<times> client \<times> nat trace))) = 0"
    using conjunct2 [OF conjunct2 [OF t]] s2(1) by (simp add: quiet_def)
  from all names d le s2(2) reset show ?thesis by blast
qed

subsection \<open>Data events\<close>

text \<open>
  C10. No exception leaves the data handler, whatever the payload and whatever the
  listeners do. A payload from a participant whose identity is not \<open>server\<close> (or from no
  participant) has no effect at all. A payload from \<open>server\<close> that is not valid JSON is
  logged and nothing else: no notification, no field changed. A payload from \<open>server\<close> that
  is valid JSON whose \<open>event_type\<close> is none of the five known strings emits nothing and
  changes no field, and unless the value is \<open>null\<close> (whose member access throws, which is
  logged) the handler calls nothing.
\<close>

theorem data_handler_ignores_bad_payloads:
  "fst (onDataReceived P L payload identity s :: error option \<times> client \<times> 'a trace) = None
   \<and> (identity \<noteq> Some ''server'' \<longrightarrow>
        (onDataReceived P L payload identity s :: error option \<times> client \<times> 'a trace) = (None, s, []))
   \<and> (identity = Some ''server'' \<and> P payload = None \<longrightarrow>
        (onDataReceived P L payload identity s :: error option \<times> client \<times> 'a trace)
          = (None, s, [(ConsoleError ''Error decoding data received'', s)]))
   \<and> (identity = Some ''server'' \<and> P payload = Some event
        \<and> event_type event \<notin> set (map (\<lambda>n. Inr (Some (JString n))) knownEventTypes) \<longrightarrow>
        fst (snd (onDataReceived P L payload identity s :: error option \<times> client \<times> 'a trace)) = s
        \<and> emitted (snd (snd (onDataReceived P L payload identity s
               :: error option \<times> client \<times> 'a trace))) = []
        \<and> (event \<noteq> JNull \<longrightarrow>
             snd (snd (onDataReceived P L payload identity s
               :: error option \<times> client \<times> 'a trace)) = []))"
proof (intro conjI impI)
  show "fst (onDataReceived P L payload identity s :: error option \<times> client \<times> 'a trace) = None"
    by (rule onDataReceived_never_throws)
  show "identity \<noteq> Some ''server'' \<Longrightarrow>
        (onDataReceived P L payload identity s :: error option \<times> client \<times> 'a trace) = (None, s, [])"
    by (simp add: onDataReceived_def dataTry_def)
  show "identity = Some ''server'' \<and> P payload = None \<Longrightarrow>
        (onDataReceived P L payload identity s :: error option \<times> client \<times> 'a trace)
          = (None, s, [(ConsoleError ''Error decoding data received'', s)])"
    by (simp add: onDataReceived_def dataTry_def)
next
  assume a: "identity = Some ''server'' \<and> P payload = Some event
        \<and> event_type event \<notin> set (map (\<lambda>n. Inr (Some (JString n))) knownEventTypes)"
  have body: "(dataTry P L payload identity s :: error option \<times> client \<times> 'a trace)
      = (case event_type event of Inl e \<Rightarrow> (Some e, s, []) | Inr ty \<Rightarrow> (None, s, []))"
    using a by (cases "event_type event") (auto simp: dataTry_def knownEventTypes_def)
  show "fst (snd (onDataReceived P L payload identity s :: error option \<times> client \<times> 'a trace)) = s"
    by (cases "event_type event") (simp_all add: onDataReceived_def body)
  show "emitted (snd (snd (onDataReceived P L payload identity s
               :: error option \<times> client \<times> 'a trace))) = []"
    by (cases "event_type event") (simp_all add: onDataReceived_def body)
  show "event \<noteq> JNull \<Longrightarrow> snd (snd (onDataReceived P L payload identity s
               :: error option \<times> client \<times> 'a trace)) = []"
    by (cases event) (simp_all add: onDataReceived_def body event_type_def)
qed

theorem data_handler_ignores_bad_payloads_witness:
  "(onDataReceived (\<lambda>p. None) (\<lambda>n. False) ''{'' (Some ''user'') simulating
       :: error option \<times> client \<times> nat trace) = (None, simulating, [])
   \<and> (onDataReceived (\<lambda>p. None) (\<lambda>n. False) ''{'' (Some ''server'') simulating
       :: error option \<times> client \<times> nat trace)
       = (None, simulating, [(ConsoleError ''Error decoding data received'', simulating)])
   \<and> snd (snd (onDataReceived
         (\<lambda>p. Some (JObject [(''event_type'', JString ''ping'')])) (\<lambda>n. False)
         ''ping'' (Some ''server'') simulating
       :: error option \<times> client \<times> nat trace)) = []"
proof -
  note a = data_handler_ignores_bad_payloads
    [of "\<lambda>p. None" "\<lambda>n. False" "''{''" "Some ''user''" simulating, where ?'a = nat]
  note b = data_handler_ignores_bad_payloads
    [of "\<lambda>p. None" "\<lambda>n. False" "''{''" "Some ''server''" simulating, where ?'a = nat]
  note c = data_handler_ignores_bad_payloads
    [of "\<lambda>p. Some (JObject [(''event_type'', JString ''ping'')])" "\<lambda>n. False"
        "''ping''" "Some ''server''" simulating
        "JObject [(''event_type'', JString ''ping'')]", where ?'a = nat]
  have 1: "(onDataReceived (\<lambda>p. None) (\<lambda>n. False) ''{'' (Some ''user'') simulating
       :: error option \<times> client \<times> nat trace) = (None, simulating, [])"
    using a by simp
  have 2: "(onDataReceived (\<lambda>p. None) (\<lambda>n. False) ''{'' (Some ''server'') simulating
       :: error option \<times> client \<times> nat trace)
       = (None, simulating, [(ConsoleError ''Error decoding data received'', simulating)])"
    using b by simp
  have 3: "snd (snd (onDataReceived
         (\<lambda>p. Some (JObject [(''event_type'', JString ''ping'')])) (\<lambda>n. False)
         ''ping'' (Some ''server'') simulating
       :: error option \<times> client \<times> nat trace)) = []"
    using c by (simp add: event_type_def knownEventTypes_def)
  from 1 2 3 show ?thesis by (intro conjI)
qed

end
